theory Spec2Isabelle
  imports Main "HOL-Library.Word"
begin

section \<open>Strings, bytes and errors\<close>

text \<open>
  A Go \<^verbatim>\<open>string\<close> and a Go \<^verbatim>\<open>[]byte\<close> are sequences of bytes; both are modelled by
  \<^typ>\<open>string\<close>, a list of 8-bit characters. A Go \<^verbatim>\<open>error\<close> is represented by its
  message, so that \<^verbatim>\<open>fmt.Errorf("...: %w", err)\<close> is concatenation.
\<close>

type_synonym error = string

definition newline :: string where
  "newline = [CHR 0x0A]"

subsection \<open>Functions of package strings\<close>

text \<open>
  \<^verbatim>\<open>strings.Split(s, sep)\<close> for a one-byte separator, the only form \<^verbatim>\<open>main.go\<close> calls:
  the pieces of \<^verbatim>\<open>s\<close> between the separators, one more than there are separators, so
  that the empty string yields one empty piece.
\<close>

fun Split :: "string \<Rightarrow> char \<Rightarrow> string list" where
  "Split [] sep = [[]]"
| "Split (c # cs) sep =
     (if c = sep then [] # Split cs sep
      else (case Split cs sep of
              [] \<Rightarrow> [[c]]
            | piece # pieces \<Rightarrow> (c # piece) # pieces))"

definition HasPrefix :: "string \<Rightarrow> string \<Rightarrow> bool" where
  "HasPrefix s pre = (take (length pre) s = pre)"

fun Join :: "string list \<Rightarrow> string \<Rightarrow> string" where
  "Join [] sep = []"
| "Join [x] sep = x"
| "Join (x # y # ys) sep = x @ sep @ Join (y # ys) sep"

text \<open>
  \<^verbatim>\<open>strings.TrimSpace\<close> removes the leading and the trailing white-space runes of a
  string, where a rune is white space when \<^verbatim>\<open>unicode.IsSpace\<close> holds: the code points
  U+0009 to U+000D, U+0020, U+0085, U+00A0, U+1680, U+2000 to U+200A, U+2028, U+2029,
  U+202F, U+205F and U+3000. Go decodes a white-space rune at a position exactly when
  the bytes there are the UTF-8 encoding of one of these code points (an over-long or
  truncated encoding decodes to the error rune, which is not white space, and decoding
  backwards from the end stops at the lead byte of the encoding). So trimming removes,
  from the front and then from the back, the byte sequences of \<open>space_runes\<close>.
\<close>

definition space_runes :: "string list" where
  "space_runes =
     [[CHR 0x09], [CHR 0x0A], [CHR 0x0B], [CHR 0x0C], [CHR 0x0D], [CHR 0x20],
      [CHR 0xC2, CHR 0x85], [CHR 0xC2, CHR 0xA0],
      [CHR 0xE1, CHR 0x9A, CHR 0x80],
      [CHR 0xE2, CHR 0x80, CHR 0x80], [CHR 0xE2, CHR 0x80, CHR 0x81],
      [CHR 0xE2, CHR 0x80, CHR 0x82], [CHR 0xE2, CHR 0x80, CHR 0x83],
      [CHR 0xE2, CHR 0x80, CHR 0x84], [CHR 0xE2, CHR 0x80, CHR 0x85],
      [CHR 0xE2, CHR 0x80, CHR 0x86], [CHR 0xE2, CHR 0x80, CHR 0x87],
      [CHR 0xE2, CHR 0x80, CHR 0x88], [CHR 0xE2, CHR 0x80, CHR 0x89],
      [CHR 0xE2, CHR 0x80, CHR 0x8A],
      [CHR 0xE2, CHR 0x80, CHR 0xA8], [CHR 0xE2, CHR 0x80, CHR 0xA9],
      [CHR 0xE2, CHR 0x80, CHR 0xAF],
      [CHR 0xE2, CHR 0x81, CHR 0x9F],
      [CHR 0xE3, CHR 0x80, CHR 0x80]]"

text \<open>
  \<open>strip encs s\<close> removes from the front of \<open>s\<close> every leading occurrence of one of
  the non-empty byte sequences \<open>encs\<close>.
\<close>

function strip :: "string list \<Rightarrow> string \<Rightarrow> string" where
  "strip encs s =
     (case find (\<lambda>e. e \<noteq> [] \<and> take (length e) s = e) encs of
        None \<Rightarrow> s
      | Some e \<Rightarrow> strip encs (drop (length e) s))"
  by pat_completeness auto
termination
proof (relation "measure (\<lambda>(encs, s). length s)")
  show "wf (measure (\<lambda>(encs, s). length s))"
    by simp
next
  fix encs :: "string list" and s e :: string
  assume "find (\<lambda>e. e \<noteq> [] \<and> take (length e) s = e) encs = Some e"
  then have "e \<noteq> []" and "take (length e) s = e"
    by (auto simp: find_Some_iff)
  then have "s \<noteq> []"
    by auto
  with \<open>e \<noteq> []\<close> show "((encs, drop (length e) s), (encs, s)) \<in> measure (\<lambda>(encs, s). length s)"
    by simp
qed

declare strip.simps [simp del]

text \<open>\<open>starts encs s\<close>: one of the non-empty byte sequences \<open>encs\<close> begins \<open>s\<close>.\<close>

definition starts :: "string list \<Rightarrow> string \<Rightarrow> bool" where
  "starts encs s = (find (\<lambda>e. e \<noteq> [] \<and> take (length e) s = e) encs \<noteq> None)"

definition TrimLeft :: "string \<Rightarrow> string" where
  "TrimLeft s = strip space_runes s"

definition TrimRight :: "string \<Rightarrow> string" where
  "TrimRight s = rev (strip (map rev space_runes) (rev s))"

definition TrimSpace :: "string \<Rightarrow> string" where
  "TrimSpace s = TrimRight (TrimLeft s)"

section \<open>The extension normalizer\<close>

text \<open>
  \<^verbatim>\<open>formatExtensions\<close>: the outer loop ranges over the raw tokens, the inner loop over
  the comma-separated pieces of one token; \<open>formattedExts\<close> is the slice the loops
  append to.
\<close>

fun formatExtensions_inner :: "string list \<Rightarrow> string list \<Rightarrow> string list" where
  "formatExtensions_inner formattedExts [] = formattedExts"
| "formatExtensions_inner formattedExts (splitExt # splitExts) =
     (let trimmed = TrimSpace splitExt in
      if trimmed = [] then formatExtensions_inner formattedExts splitExts
      else
        (let dotted = (if \<not> HasPrefix trimmed ''.'' then ''.'' @ trimmed else trimmed)
         in formatExtensions_inner (formattedExts @ [dotted]) splitExts))"

fun formatExtensions_outer :: "string list \<Rightarrow> string list \<Rightarrow> string list" where
  "formatExtensions_outer formattedExts [] = formattedExts"
| "formatExtensions_outer formattedExts (ext # rawExts) =
     formatExtensions_outer
       (formatExtensions_inner formattedExts (Split ext CHR '',''))
       rawExts"

definition formatExtensions :: "string list \<Rightarrow> string list" where
  "formatExtensions rawExts = formatExtensions_outer [] rawExts"

text \<open>
  The normalizer in the words of the specification: split every token on commas, trim
  each piece, drop the pieces that are empty after trimming, and put a dot in front of
  those that do not start with one.
\<close>

definition add_dot :: "string \<Rightarrow> string" where
  "add_dot t = (if take 1 t = ''.'' then t else ''.'' @ t)"

definition normalize_spec :: "string list \<Rightarrow> string list" where
  "normalize_spec raw =
     map add_dot
       (filter (\<lambda>t. t \<noteq> [])
          (map TrimSpace (concat (map (\<lambda>token. Split token CHR '','') raw))))"

section \<open>The extension filter\<close>

text \<open>
  \<^verbatim>\<open>filepath.Ext\<close> on a Unix build, where the only path separator is the slash: scan
  from the last byte towards the front, stop at a separator, and return the rest of the
  path from the first dot met. \<open>Ext_scan path (Suc i)\<close> is the loop at index \<open>i\<close>.
\<close>

fun Ext_scan :: "string \<Rightarrow> nat \<Rightarrow> string" where
  "Ext_scan path 0 = []"
| "Ext_scan path (Suc i) =
     (if path ! i = CHR ''/'' then []
      else if path ! i = CHR ''.'' then drop i path
      else Ext_scan path i)"

definition Ext :: "string \<Rightarrow> string" where
  "Ext path = Ext_scan path (length path)"

text \<open>
  The extension in the words of the specification: the base name is what follows the
  last separator, and the extension is the substring from the last dot of the base name
  to the end, or empty if the base name has no dot.
\<close>

definition base_name :: "string \<Rightarrow> string" where
  "base_name path = rev (takeWhile (\<lambda>c. c \<noteq> CHR ''/'') (rev path))"

definition ext_spec :: "string \<Rightarrow> string" where
  "ext_spec path =
     (if CHR ''.'' \<in> set (base_name path)
      then CHR ''.'' # rev (takeWhile (\<lambda>c. c \<noteq> CHR ''.'') (rev (base_name path)))
      else [])"

fun matchesExtension_loop :: "string \<Rightarrow> string list \<Rightarrow> bool" where
  "matchesExtension_loop ext [] = False"
| "matchesExtension_loop ext (e # exts) =
     (if ext = e then True else matchesExtension_loop ext exts)"

definition matchesExtension :: "string \<Rightarrow> string list \<Rightarrow> bool" where
  "matchesExtension path exts =
     (if length exts = 0 then True else matchesExtension_loop (Ext path) exts)"

section \<open>The environment and the effects\<close>

text \<open>
  \<^verbatim>\<open>HashedFileInfo\<close> as declared in \<^verbatim>\<open>main.go\<close>, and the part of \<^verbatim>\<open>fs.FileInfo\<close> that the
  program reads. \<^verbatim>\<open>Size\<close> is an \<^verbatim>\<open>int64\<close>.
\<close>

record HashedFileInfo =
  Name :: string
  Path :: string
  Size :: "64 word"
  Hash :: string

record FileInfo =
  fi_Name :: string
  fi_Size :: "64 word"
  fi_IsDir :: bool

text \<open>
  An opened file, as a reader sees it: the bytes its reads deliver before the stream
  ends, and how the stream ends, at end of file (\<open>None\<close>) or with a read error.
\<close>

record File =
  data :: string
  failure :: "error option"

text \<open>
  One call that \<^verbatim>\<open>filepath.WalkDir\<close> makes to its callback: the path, whether the entry
  is a directory, and the error the traversal met there, if any.
\<close>

record walk_event =
  ev_path :: string
  ev_IsDir :: bool
  ev_err :: "error option"

text \<open>
  Everything the program asks of the operating system and of the libraries it does not
  define itself:
  \<^item> \<open>os_Stat\<close>, \<open>os_Open\<close>, \<open>os_Getwd\<close>, \<open>os_Create\<close>, \<open>filepath_Abs\<close>: the results
    of the calls of these names (\<open>os_Create\<close> returns the error, if any);
  \<^item> \<open>walk root\<close>: the calls \<^verbatim>\<open>filepath.WalkDir(root, fn)\<close> makes to \<open>fn\<close>, in order,
    as long as \<open>fn\<close> returns \<^verbatim>\<open>nil\<close>;
  \<^item> \<open>sha256_Sum\<close>: the SHA-256 digest of a byte sequence (package \<^verbatim>\<open>crypto/sha256\<close>);
  \<^item> \<open>time_Now_Format\<close>: the value of \<^verbatim>\<open>time.Now().Format("20060102_150405")\<close>;
  \<^item> \<open>disk_room\<close> and \<open>disk_error\<close>: the number of bytes that the file system lets
    the report file grow to, and the error of a write that goes beyond;
  \<^item> \<open>cobra_UsageString\<close>: the usage text that the command library makes for the
    command.
\<close>

record world =
  os_Stat :: "string \<Rightarrow> error + FileInfo"
  os_Open :: "string \<Rightarrow> error + File"
  os_Getwd :: "error + string"
  os_Create :: "string \<Rightarrow> error option"
  filepath_Abs :: "string \<Rightarrow> error + string"
  walk :: "string \<Rightarrow> walk_event list"
  sha256_Sum :: "string \<Rightarrow> string"
  time_Now_Format :: string
  disk_room :: nat
  disk_error :: error
  cobra_UsageString :: string

text \<open>
  The effects of a run, as a log: what was printed to the two standard streams, the
  paths given to \<^verbatim>\<open>os.Open\<close>, and the files made by \<^verbatim>\<open>os.Create\<close>, each with the bytes
  it holds when it is closed.
\<close>

record state =
  stdout :: "string list"
  stderr :: "string list"
  opened :: "string list"
  created :: "(string \<times> string) list"

definition init_state :: state where
  "init_state = \<lparr>stdout = [], stderr = [], opened = [], created = []\<rparr>"

definition printToStdOut :: "string \<Rightarrow> state \<Rightarrow> state" where
  "printToStdOut s st = st\<lparr>stdout := stdout st @ [s]\<rparr>"

definition printToStdErr :: "error \<Rightarrow> state \<Rightarrow> state" where
  "printToStdErr err st = st\<lparr>stderr := stderr st @ [''Error: '' @ err @ newline]\<rparr>"

section \<open>The hasher\<close>

text \<open>
  \<^verbatim>\<open>fmt.Sprintf("%x", bytes)\<close>: two lower-case hexadecimal digits for every byte, the
  high half first.
\<close>

definition hexdigits :: string where
  "hexdigits = ''0123456789abcdef''"

definition Sprintf_x :: "string \<Rightarrow> string" where
  "Sprintf_x bytes =
     concat (map (\<lambda>b. [hexdigits ! (of_char b div 16), hexdigits ! (of_char b mod 16)]) bytes)"

text \<open>
  \<^verbatim>\<open>io.CopyBuffer(hash, file, buf)\<close>: read into the buffer, write what was read to the
  hash, until a read reports the end of the file or an error. A read delivers as many
  of the remaining bytes as the buffer holds. A \<^verbatim>\<open>hash.Hash\<close> never fails to write, and
  its state is the bytes written to it so far. \<open>buflen\<close> is the length of the buffer;
  \<^verbatim>\<open>io.CopyBuffer\<close> refuses an empty one with a panic and \<^verbatim>\<open>hashFile\<close> never passes
  one, so the loop is defined to stop at once for it. The result is the same for every
  other length (lemma \<open>copy_loop_all\<close> below), so it does not matter how the library
  cuts the file into reads.
\<close>

function copy_loop :: "nat \<Rightarrow> string \<Rightarrow> error option \<Rightarrow> string \<Rightarrow> string \<times> error option" where
  "copy_loop buflen rest ending written =
     (if rest = [] \<or> buflen = 0 then (written, ending)
      else copy_loop buflen (drop buflen rest) ending (written @ take buflen rest))"
  by pat_completeness auto
termination
  by (relation "measure (\<lambda>(buflen, rest, ending, written). length rest)") auto

declare copy_loop.simps [simp del]

definition io_CopyBuffer :: "string \<Rightarrow> File \<Rightarrow> nat \<Rightarrow> string \<times> error option" where
  "io_CopyBuffer dst src buflen = copy_loop buflen (data src) (failure src) dst"

definition hashFile :: "world \<Rightarrow> string \<Rightarrow> state \<Rightarrow> (error + string) \<times> state" where
  "hashFile w path st =
     (let st1 = st\<lparr>opened := opened st @ [path]\<rparr> in
      case os_Open w path of
        Inl err \<Rightarrow> (Inl err, st1)
      | Inr file \<Rightarrow>
          (case io_CopyBuffer [] file (1024 * 1024) of
             (hash, Some err) \<Rightarrow> (Inl err, st1)
           | (hash, None) \<Rightarrow> (Inr (Sprintf_x (sha256_Sum w hash)), st1)))"

section \<open>The file scanner\<close>

text \<open>
  The callback that \<^verbatim>\<open>processFiles\<close> gives to \<^verbatim>\<open>filepath.WalkDir\<close>. It appends to the
  slice \<open>files\<close> of the enclosing function, so the slice is threaded through with the
  state. The first component of the result is the error the callback returns.
\<close>

definition walkFn ::
  "world \<Rightarrow> string list \<Rightarrow> walk_event \<Rightarrow> HashedFileInfo list \<times> state
     \<Rightarrow> error option \<times> HashedFileInfo list \<times> state" where
  "walkFn w exts ev acc =
     (case acc of (files, st) \<Rightarrow>
      (case ev_err ev of
         Some err \<Rightarrow> (Some err, files, st)
       | None \<Rightarrow>
          if ev_IsDir ev then (None, files, st)
          else if matchesExtension (ev_path ev) exts then
            (case hashFile w (ev_path ev)
                    (printToStdOut (''Processing: '' @ ev_path ev @ newline) st) of
               (Inl err, st2) \<Rightarrow>
                 (Some (''failed to hash file '' @ ev_path ev @ '': '' @ err), files, st2)
             | (Inr hash, st2) \<Rightarrow>
                 (case os_Stat w (ev_path ev) of
                    Inl err \<Rightarrow>
                      (Some (''failed to get file stats for '' @ ev_path ev @ '': '' @ err),
                       files, st2)
                  | Inr info \<Rightarrow>
                      (None,
                       files @ [\<lparr>Name = fi_Name info, Path = ev_path ev,
                                 Size = fi_Size info, Hash = hash\<rparr>],
                       st2)))
          else (None, files, st)))"

text \<open>
  \<^verbatim>\<open>filepath.WalkDir\<close>: call the callback on one entry after the other, and stop at the
  first call that returns an error, which becomes the result. (The callback above
  returns an error only to abort; it never asks to skip a directory.)
\<close>

fun WalkDir ::
  "walk_event list \<Rightarrow> (walk_event \<Rightarrow> 'a \<Rightarrow> error option \<times> 'a) \<Rightarrow> 'a \<Rightarrow> error option \<times> 'a" where
  "WalkDir [] fn acc = (None, acc)"
| "WalkDir (ev # evs) fn acc =
     (case fn ev acc of
        (Some err, acc') \<Rightarrow> (Some err, acc')
      | (None, acc') \<Rightarrow> WalkDir evs fn acc')"

text \<open>
  \<^verbatim>\<open>processFiles\<close> returns a slice and an error, as Go does: a pair, with the empty list
  for the \<^verbatim>\<open>nil\<close> slice.
\<close>

definition processFiles ::
  "world \<Rightarrow> string \<Rightarrow> string list \<Rightarrow> state \<Rightarrow> (HashedFileInfo list \<times> error option) \<times> state" where
  "processFiles w folderPath exts st =
     (let st1 = printToStdOut (''Scanning folder: '' @ folderPath @ newline) st;
          st2 = (if length exts > 0
                 then printToStdOut
                        (''Filtering by extensions: '' @ Join exts '', '' @ newline) st1
                 else printToStdOut (''Processing all file types'' @ newline) st1)
      in case WalkDir (walk w folderPath) (walkFn w exts) ([], st2) of
           (Some err, files, st3) \<Rightarrow> (([], Some err), st3)
         | (None, files, st3) \<Rightarrow> ((files, None), st3))"

section \<open>The report writer\<close>

subsection \<open>Decimal digits\<close>

definition digit :: "nat \<Rightarrow> char" where
  "digit d = ''0123456789'' ! d"

function show_nat :: "nat \<Rightarrow> string" where
  "show_nat n = (if n < 10 then [digit n] else show_nat (n div 10) @ [digit (n mod 10)])"
  by pat_completeness auto
termination
  by (relation "measure (\<lambda>n. n)") auto

declare show_nat.simps [simp del]

subsection \<open>The size in megabytes\<close>

text \<open>
  The \<^verbatim>\<open>float64\<close> values of \<^verbatim>\<open>writeToCsv\<close> are an integer divided by a power of two: the
  pair \<open>(m, k)\<close> stands for the number \<open>m / 2 ^ k\<close>.

  \<^item> \<^verbatim>\<open>float64(n)\<close> of an \<^verbatim>\<open>int64\<close> keeps the 53 leading bits of the magnitude and
    rounds the rest to nearest, ties to even; below \<open>2 ^ 53\<close> nothing is rounded.
  \<^item> Dividing by \<^verbatim>\<open>1048576.0\<close>, which is \<open>2 ^ 20\<close>, only lowers the exponent, so it is
    exact.
  \<^item> \<^verbatim>\<open>fmt.Sprintf("%.2f", x)\<close> prints the sign, then the magnitude rounded to
    hundredths from its exact value, ties to even, with two digits after the point.
\<close>

type_synonym float64 = "int \<times> nat"

definition round_half_even :: "nat \<Rightarrow> nat \<Rightarrow> nat" where
  "round_half_even a d =
     (let q = a div d; r = a mod d in
      if 2 * r < d then q
      else if d < 2 * r then q + 1
      else if even q then q else q + 1)"

function bit_len :: "nat \<Rightarrow> nat" where
  "bit_len n = (if n = 0 then 0 else Suc (bit_len (n div 2)))"
  by pat_completeness auto
termination
  by (relation "measure (\<lambda>n. n)") auto

declare bit_len.simps [simp del]

definition float64_of_int64 :: "64 word \<Rightarrow> float64" where
  "float64_of_int64 n =
     (let a = nat \<bar>sint n\<bar>;
          e = bit_len a - 53;
          m = round_half_even a (2 ^ e) * 2 ^ e
      in (if sint n < 0 then - int m else int m, 0))"

definition float64_div_1048576 :: "float64 \<Rightarrow> float64" where
  "float64_div_1048576 x = (case x of (m, k) \<Rightarrow> (m, k + 20))"

definition hundredths :: "float64 \<Rightarrow> nat" where
  "hundredths x = (case x of (m, k) \<Rightarrow> round_half_even (nat \<bar>m\<bar> * 100) (2 ^ k))"

definition Sprintf_2f :: "float64 \<Rightarrow> string" where
  "Sprintf_2f x =
     (if fst x < 0 then ''-'' else []) @ show_nat (hundredths x div 100) @ ''.''
       @ [digit (hundredths x mod 100 div 10), digit (hundredths x mod 10)]"

subsection \<open>The buffered writer\<close>

text \<open>
  \<^verbatim>\<open>csv.NewWriter(file)\<close> wraps the file in a \<^verbatim>\<open>bufio.Writer\<close> with a buffer of 4096
  bytes. Its state: the bytes in the buffer, the error it has met (once set, every
  later operation returns it and writes nothing), and the bytes that the file holds.
\<close>

record Writer =
  w_buf :: string
  w_err :: "error option"
  w_out :: string

definition buffer_size :: nat where
  "buffer_size = 4096"

text \<open>
  \<^verbatim>\<open>file.Write(p)\<close> on the report file: the file system takes the bytes as long as the
  file stays within \<open>disk_room\<close>; beyond that it takes what fits and returns
  \<open>disk_error\<close>. The result is the new content of the file and the error.
\<close>

definition os_File_Write :: "world \<Rightarrow> string \<Rightarrow> string \<Rightarrow> string \<times> error option" where
  "os_File_Write w content p =
     (if length content + length p \<le> disk_room w then (content @ p, None)
      else (content @ take (disk_room w - length content) p, Some (disk_error w)))"

definition bufio_Available :: "Writer \<Rightarrow> nat" where
  "bufio_Available b = buffer_size - length (w_buf b)"

text \<open>
  \<^verbatim>\<open>(*bufio.Writer).Flush\<close>: the error it returns is \<open>w_err\<close> of the result. What the
  file did not take stays in the buffer.
\<close>

definition bufio_Flush :: "world \<Rightarrow> Writer \<Rightarrow> Writer" where
  "bufio_Flush w b =
     (case w_err b of
        Some e \<Rightarrow> b
      | None \<Rightarrow>
          if length (w_buf b) = 0 then b
          else (case os_File_Write w (w_out b) (w_buf b) of
                  (content, Some e) \<Rightarrow>
                    b\<lparr>w_buf := drop (length content - length (w_out b)) (w_buf b),
                      w_err := Some e, w_out := content\<rparr>
                | (content, None) \<Rightarrow> b\<lparr>w_buf := [], w_out := content\<rparr>))"

definition bufio_WriteByte :: "world \<Rightarrow> Writer \<Rightarrow> char \<Rightarrow> error option \<times> Writer" where
  "bufio_WriteByte w b c =
     (case w_err b of
        Some e \<Rightarrow> (Some e, b)
      | None \<Rightarrow>
          if bufio_Available b \<le> 0 then
            (case w_err (bufio_Flush w b) of
               Some e \<Rightarrow> (Some e, bufio_Flush w b)
             | None \<Rightarrow> (None, (bufio_Flush w b)\<lparr>w_buf := w_buf (bufio_Flush w b) @ [c]\<rparr>))
          else (None, b\<lparr>w_buf := w_buf b @ [c]\<rparr>))"

text \<open>
  \<^verbatim>\<open>(*bufio.Writer).WriteString\<close>: while the string does not fit and no error is set,
  either hand the whole string to the file (when the buffer is empty: a file is an
  \<^verbatim>\<open>io.StringWriter\<close>), or fill the buffer and flush it; then put the rest into the
  buffer.
\<close>

function bufio_WriteString :: "world \<Rightarrow> Writer \<Rightarrow> string \<Rightarrow> error option \<times> Writer" where
  "bufio_WriteString w b s =
     (if length s > bufio_Available b \<and> w_err b = None then
        (if length (w_buf b) = 0 then
           bufio_WriteString w
             (b\<lparr>w_err := snd (os_File_Write w (w_out b) s),
               w_out := fst (os_File_Write w (w_out b) s)\<rparr>)
             (drop (length (fst (os_File_Write w (w_out b) s)) - length (w_out b)) s)
         else
           bufio_WriteString w
             (bufio_Flush w (b\<lparr>w_buf := w_buf b @ take (bufio_Available b) s\<rparr>))
             (drop (bufio_Available b) s))
      else (case w_err b of
              Some e \<Rightarrow> (Some e, b)
            | None \<Rightarrow> (None, b\<lparr>w_buf := w_buf b @ s\<rparr>)))"
  by pat_completeness auto
termination
proof (relation "measure (\<lambda>(w, b, s).
    case w_err b of
      Some e \<Rightarrow> 0
    | None \<Rightarrow> 2 * length s + (if w_buf b = [] then 1 else 2))")
  show "wf (measure (\<lambda>(w, b, s).
    case w_err b of
      Some e \<Rightarrow> 0
    | None \<Rightarrow> 2 * length s + (if w_buf b = [] then 1 else 2)))"
    by simp
next
  fix w :: world and b :: Writer and s :: string
  assume "bufio_Available b < length s \<and> w_err b = None" and "length (w_buf b) = 0"
  then show "((w, b\<lparr>w_err := snd (os_File_Write w (w_out b) s),
                    w_out := fst (os_File_Write w (w_out b) s)\<rparr>,
               drop (length (fst (os_File_Write w (w_out b) s)) - length (w_out b)) s),
              (w, b, s))
       \<in> measure (\<lambda>(w, b, s).
            case w_err b of
              Some e \<Rightarrow> 0
            | None \<Rightarrow> 2 * length s + (if w_buf b = [] then 1 else 2))"
    by (auto simp: os_File_Write_def)
next
  fix w :: world and b :: Writer and s :: string
  assume "bufio_Available b < length s \<and> w_err b = None" and "length (w_buf b) \<noteq> 0"
  then show "((w, bufio_Flush w (b\<lparr>w_buf := w_buf b @ take (bufio_Available b) s\<rparr>),
               drop (bufio_Available b) s),
              (w, b, s))
       \<in> measure (\<lambda>(w, b, s).
            case w_err b of
              Some e \<Rightarrow> 0
            | None \<Rightarrow> 2 * length s + (if w_buf b = [] then 1 else 2))"
    by (auto simp: bufio_Flush_def os_File_Write_def split: option.splits)
qed

declare bufio_WriteString.simps [simp del]

subsection \<open>The CSV writer\<close>

text \<open>
  \<^verbatim>\<open>(*csv.Writer).fieldNeedsQuotes\<close>, for the comma as separator: a field is quoted when
  it is \<^verbatim>\<open>\.\<close>, when it holds a line feed, a carriage return, a quote or a comma, or when
  its first rune is white space. The empty field is not quoted.
\<close>

definition csv_fieldNeedsQuotes :: "string \<Rightarrow> bool" where
  "csv_fieldNeedsQuotes field =
     (if field = [] then False
      else if field = [CHR 0x5C, CHR ''.''] then True
      else if list_ex (\<lambda>c. c = CHR 0x0A \<or> c = CHR 0x0D \<or> c = CHR 0x22 \<or> c = CHR '','') field
        then True
      else starts space_runes field)"

text \<open>
  The loop of \<^verbatim>\<open>(*csv.Writer).Write\<close> over a quoted field: copy up to the next quote,
  carriage return or line feed, then write that character, a quote doubled.
\<close>

function csv_write_quoted :: "world \<Rightarrow> Writer \<Rightarrow> string \<Rightarrow> error option \<times> Writer" where
  "csv_write_quoted w b field =
     (if length field > 0 then
        (case bufio_WriteString w b
                (takeWhile (\<lambda>c. c \<noteq> CHR 0x22 \<and> c \<noteq> CHR 0x0D \<and> c \<noteq> CHR 0x0A) field) of
           (Some e, b1) \<Rightarrow> (Some e, b1)
         | (None, b1) \<Rightarrow>
            (case dropWhile (\<lambda>c. c \<noteq> CHR 0x22 \<and> c \<noteq> CHR 0x0D \<and> c \<noteq> CHR 0x0A) field of
               [] \<Rightarrow> (None, b1)
             | c # rest \<Rightarrow>
                (case (if c = CHR 0x22 then bufio_WriteString w b1 [CHR 0x22, CHR 0x22]
                       else bufio_WriteByte w b1 c) of
                   (Some e, b2) \<Rightarrow> (Some e, b2)
                 | (None, b2) \<Rightarrow> csv_write_quoted w b2 rest)))
      else (None, b))"
  by pat_completeness auto
termination
proof (relation "measure (\<lambda>(w, b, field). length field)")
  show "wf (measure (\<lambda>(w, b, field). length field))"
    by simp
next
  fix w :: world and b :: Writer and field :: string and x :: "error option \<times> Writer"
    and x1 :: "error option" and b1 :: Writer and c :: char and rest :: string
    and xa :: "error option \<times> Writer" and x1a :: "error option" and b2 :: Writer
  assume "dropWhile (\<lambda>c. c \<noteq> CHR 0x22 \<and> c \<noteq> CHR 0x0D \<and> c \<noteq> CHR 0x0A) field = c # rest"
  then have "length (c # rest) \<le> length field"
    by (metis length_dropWhile_le)
  then show "((w, b2, rest), (w, b, field)) \<in> measure (\<lambda>(w, b, field). length field)"
    by simp
qed

declare csv_write_quoted.simps [simp del]

text \<open>
  \<^verbatim>\<open>(*csv.Writer).Write\<close>, for a writer as \<^verbatim>\<open>csv.NewWriter\<close> makes it (the separator
  is the comma, and lines end with a line feed): the fields of the record, a comma
  before every field but the first (\<open>n\<close> is the index of the field), and a line feed
  at the end. The comma is written by \<^verbatim>\<open>WriteRune\<close>, which for a rune of one byte is
  \<^verbatim>\<open>WriteByte\<close>. The first error of the buffered writer ends the call and is returned.
\<close>

fun csv_write_fields :: "world \<Rightarrow> Writer \<Rightarrow> nat \<Rightarrow> string list \<Rightarrow> error option \<times> Writer" where
  "csv_write_fields w b n [] = (None, b)"
| "csv_write_fields w b n (field # rest) =
     (case (if n > 0 then bufio_WriteByte w b CHR '','' else (None, b)) of
        (Some e, b1) \<Rightarrow> (Some e, b1)
      | (None, b1) \<Rightarrow>
          if \<not> csv_fieldNeedsQuotes field then
            (case bufio_WriteString w b1 field of
               (Some e, b2) \<Rightarrow> (Some e, b2)
             | (None, b2) \<Rightarrow> csv_write_fields w b2 (Suc n) rest)
          else
            (case bufio_WriteByte w b1 CHR 0x22 of
               (Some e, b2) \<Rightarrow> (Some e, b2)
             | (None, b2) \<Rightarrow>
                (case csv_write_quoted w b2 field of
                   (Some e, b3) \<Rightarrow> (Some e, b3)
                 | (None, b3) \<Rightarrow>
                    (case bufio_WriteByte w b3 CHR 0x22 of
                       (Some e, b4) \<Rightarrow> (Some e, b4)
                     | (None, b4) \<Rightarrow> csv_write_fields w b4 (Suc n) rest))))"

definition csv_Write :: "world \<Rightarrow> Writer \<Rightarrow> string list \<Rightarrow> error option \<times> Writer" where
  "csv_Write w b rcd =
     (case csv_write_fields w b 0 rcd of
        (Some e, b1) \<Rightarrow> (Some e, b1)
      | (None, b1) \<Rightarrow> bufio_WriteByte w b1 (CHR 0x0A))"

text \<open>\<^verbatim>\<open>(*csv.Writer).Flush\<close> flushes the buffered writer and returns nothing.\<close>

definition csv_Flush :: "world \<Rightarrow> Writer \<Rightarrow> Writer" where
  "csv_Flush w b = bufio_Flush w b"

subsection \<open>Writing the report\<close>

text \<open>The record that the loop of \<^verbatim>\<open>writeToCsv\<close> builds for one \<^verbatim>\<open>HashedFileInfo\<close>.\<close>

definition csv_record :: "HashedFileInfo \<Rightarrow> string list" where
  "csv_record hashedFileInfo =
     (let sizeInMB = float64_div_1048576 (float64_of_int64 (Size hashedFileInfo)) in
      [Name hashedFileInfo, Path hashedFileInfo, Sprintf_2f sizeInMB, Hash hashedFileInfo])"

fun writeToCsv_loop ::
  "world \<Rightarrow> HashedFileInfo list \<Rightarrow> Writer \<Rightarrow> error option \<times> Writer" where
  "writeToCsv_loop w [] writer = (None, writer)"
| "writeToCsv_loop w (hashedFileInfo # rest) writer =
     (case csv_Write w writer (csv_record hashedFileInfo) of
        (Some err, writer') \<Rightarrow> (Some (''failed to write content to CSV: '' @ err), writer')
      | (None, writer') \<Rightarrow> writeToCsv_loop w rest writer')"

text \<open>
  The deferred \<^verbatim>\<open>writer.Flush()\<close> and \<^verbatim>\<open>file.Close()\<close>, which run on every return after
  the file was created. The flush may fail like any other write, and \<^verbatim>\<open>writeToCsv\<close>
  does not ask the writer for its error afterwards. The file stays, with the bytes
  that reached it.
\<close>

definition close_file :: "world \<Rightarrow> string \<Rightarrow> Writer \<Rightarrow> state \<Rightarrow> state" where
  "close_file w name writer st =
     st\<lparr>created := created st @ [(name, w_out (csv_Flush w writer))]\<rparr>"

definition header :: "string list" where
  "header = [''Name'', ''Path'', ''Size (MB)'', ''Hash'']"

definition writeToCsv :: "world \<Rightarrow> HashedFileInfo list \<Rightarrow> state \<Rightarrow> error option \<times> state" where
  "writeToCsv w hashedFilesInfo st =
     (let timestamp = time_Now_Format w;
          outputFilename = ''hash_results_'' @ timestamp @ ''.csv''
      in case os_Create w outputFilename of
           Some err \<Rightarrow> (Some (''failed to create CSV file: '' @ err), st)
         | None \<Rightarrow>
            (case csv_Write w \<lparr>w_buf = [], w_err = None, w_out = []\<rparr> header of
               (Some err, writer) \<Rightarrow>
                 (Some (''failed to write header to CSV: '' @ err),
                  close_file w outputFilename writer st)
             | (None, writer) \<Rightarrow>
                (case writeToCsv_loop w hashedFilesInfo writer of
                   (Some err, writer') \<Rightarrow> (Some err, close_file w outputFilename writer' st)
                 | (None, writer') \<Rightarrow>
                    (let absPath = (case filepath_Abs w outputFilename of
                                      Inl err \<Rightarrow> outputFilename
                                    | Inr p \<Rightarrow> p)
                     in (None,
                         close_file w outputFilename writer'
                           (printToStdOut (''Output written to: '' @ absPath @ newline) st))))))"

section \<open>The directory resolver and the command\<close>

definition validateDirectory :: "world \<Rightarrow> string \<Rightarrow> error + string" where
  "validateDirectory w path =
     (case os_Stat w path of
        Inl err \<Rightarrow> Inl (''directory not accessible: '' @ err)
      | Inr info \<Rightarrow>
          if \<not> fi_IsDir info then Inl (''path is not a directory: '' @ path)
          else Inr path)"

definition getFolderPath :: "world \<Rightarrow> string list \<Rightarrow> error + string" where
  "getFolderPath w args =
     (if length args > 0 then validateDirectory w (args ! 0)
      else (case os_Getwd w of
              Inl err \<Rightarrow> Inl err
            | Inr currentDir \<Rightarrow> Inr currentDir))"

text \<open>
  The \<^verbatim>\<open>RunE\<close> function of \<^verbatim>\<open>rootCmd\<close>. The flag variable \<^verbatim>\<open>extensions\<close> is a parameter.
\<close>

definition RunE :: "world \<Rightarrow> string list \<Rightarrow> string list \<Rightarrow> state \<Rightarrow> error option \<times> state" where
  "RunE w extensions args st =
     (case getFolderPath w args of
        Inl err \<Rightarrow> (Some err, st)
      | Inr folderPath \<Rightarrow>
         (let formattedExtensions = formatExtensions extensions in
          case processFiles w folderPath formattedExtensions st of
            ((hashedFilesInfo, Some err), st1) \<Rightarrow> (Some err, st1)
          | ((hashedFilesInfo, None), st1) \<Rightarrow>
             (case writeToCsv w hashedFilesInfo st1 of
                (Some err, st2) \<Rightarrow> (Some err, st2)
              | (None, st2) \<Rightarrow> (None, st2))))"

text \<open>
  The command as \<^verbatim>\<open>rootCmd\<close> declares it: the check \<^verbatim>\<open>Args: cobra.MaximumNArgs(1)\<close>, then
  \<^verbatim>\<open>RunE\<close>.
\<close>

definition rootCmd :: "world \<Rightarrow> string list \<Rightarrow> string list \<Rightarrow> state \<Rightarrow> error option \<times> state" where
  "rootCmd w extensions args st =
     (if length args > 1
      then (Some (''accepts at most 1 arg(s), received '' @ show_nat (length args)), st)
      else RunE w extensions args st)"

text \<open>
  \<^verbatim>\<open>rootCmd.Execute()\<close>. The command sets neither \<^verbatim>\<open>SilenceErrors\<close> nor \<^verbatim>\<open>SilenceUsage\<close>,
  so when the command returns an error the library prints \<^verbatim>\<open>Error: \<close> with the message,
  and then the usage text of the command, to standard error, before it returns the
  error to \<^verbatim>\<open>main\<close>.
\<close>

definition Execute :: "world \<Rightarrow> string list \<Rightarrow> string list \<Rightarrow> state \<Rightarrow> error option \<times> state" where
  "Execute w extensions args st =
     (case rootCmd w extensions args st of
        (Some err, st') \<Rightarrow>
          (Some err,
           st'\<lparr>stderr := stderr st' @ [''Error: '' @ err @ newline,
                                       cobra_UsageString w @ newline]\<rparr>)
      | (None, st') \<Rightarrow> (None, st'))"

text \<open>
  \<^verbatim>\<open>main\<close>, with the exit status of the process as the first component of the result.
  \<^verbatim>\<open>main\<close> returns on both branches and \<^verbatim>\<open>main.go\<close> never calls \<^verbatim>\<open>os.Exit\<close>; a Go
  program whose \<^verbatim>\<open>main\<close> returns ends with status 0.
\<close>

definition main :: "world \<Rightarrow> string list \<Rightarrow> string list \<Rightarrow> state \<Rightarrow> nat \<times> state" where
  "main w extensions args st =
     (case Execute w extensions args st of
        (Some err, st') \<Rightarrow> (0, printToStdErr err st')
      | (None, st') \<Rightarrow> (0, st'))"

section \<open>Notions used in the statements\<close>

subsection \<open>White space at the ends of a string\<close>

definition no_space_front :: "string \<Rightarrow> bool" where
  "no_space_front s = (\<not> starts space_runes s)"

definition no_space_back :: "string \<Rightarrow> bool" where
  "no_space_back s = (\<not> starts (map rev space_runes) (rev s))"

text \<open>
  A canonical extension: not empty, starting with a dot, without a comma, and without
  white space at either end.
\<close>

definition canonical :: "string \<Rightarrow> bool" where
  "canonical t =
     (t \<noteq> [] \<and> HasPrefix t ''.'' \<and> CHR '','' \<notin> set t \<and> no_space_front t \<and> no_space_back t)"

subsection \<open>Reading hexadecimal\<close>

text \<open>
  The value of a hexadecimal digit is its position in \<open>hexdigits\<close>; \<open>unhex\<close> reads two
  digits as one byte, the high half first.
\<close>

definition hex_value :: "char \<Rightarrow> nat" where
  "hex_value c = length (takeWhile (\<lambda>d. d \<noteq> c) hexdigits)"

fun unhex :: "string \<Rightarrow> string" where
  "unhex (hi # lo # rest) = char_of (16 * hex_value hi + hex_value lo) # unhex rest"
| "unhex rest = []"

subsection \<open>Entries of the walk\<close>

text \<open>
  A file is unreadable when it cannot be opened or when reading it ends with an error.
  An entry of the walk is matched when it is not a directory and passes the filter. It
  is faulty when the traversal reports an error for it, or when it is matched and
  either unreadable or not accepted by \<^verbatim>\<open>os.Stat\<close>.
\<close>

definition unreadable :: "world \<Rightarrow> string \<Rightarrow> bool" where
  "unreadable w path =
     (case os_Open w path of Inl err \<Rightarrow> True | Inr f \<Rightarrow> failure f \<noteq> None)"

definition matched :: "string list \<Rightarrow> walk_event \<Rightarrow> bool" where
  "matched exts ev = (\<not> ev_IsDir ev \<and> matchesExtension (ev_path ev) exts)"

definition faulty :: "world \<Rightarrow> string list \<Rightarrow> walk_event \<Rightarrow> bool" where
  "faulty w exts ev =
     (case ev_err ev of
        Some err \<Rightarrow> True
      | None \<Rightarrow> matched exts ev
                \<and> (unreadable w (ev_path ev) \<or> isl (os_Stat w (ev_path ev))))"

text \<open>The state after the lines that \<^verbatim>\<open>processFiles\<close> prints before it walks.\<close>

definition announced :: "string \<Rightarrow> string list \<Rightarrow> state \<Rightarrow> state" where
  "announced folderPath exts st =
     (if length exts > 0
      then printToStdOut (''Filtering by extensions: '' @ Join exts '', '' @ newline)
             (printToStdOut (''Scanning folder: '' @ folderPath @ newline) st)
      else printToStdOut (''Processing all file types'' @ newline)
             (printToStdOut (''Scanning folder: '' @ folderPath @ newline) st))"

text \<open>The name of the report.\<close>

definition outputFilename :: "world \<Rightarrow> string" where
  "outputFilename w = ''hash_results_'' @ time_Now_Format w @ ''.csv''"

text \<open>
  A run gets as far as creating the report when the arguments are accepted, the
  directory is resolved, the scan succeeds and \<^verbatim>\<open>os.Create\<close> succeeds.
\<close>

definition report_created :: "world \<Rightarrow> string list \<Rightarrow> string list \<Rightarrow> state \<Rightarrow> bool" where
  "report_created w extensions args st =
     (length args \<le> 1
      \<and> (case getFolderPath w args of
            Inl err \<Rightarrow> False
          | Inr folderPath \<Rightarrow>
              snd (fst (processFiles w folderPath (formatExtensions extensions) st)) = None)
      \<and> os_Create w (outputFilename w) = None)"

subsection \<open>Reading decimal\<close>

text \<open>The number that a string of decimal digits denotes.\<close>

definition read_nat :: "string \<Rightarrow> nat" where
  "read_nat s = foldl (\<lambda>acc c. 10 * acc + (of_char c - 48)) 0 s"

text \<open>A record of one mebibyte.\<close>

definition one_MiB :: HashedFileInfo where
  "one_MiB = \<lparr>Name = ''blob'', Path = ''data/blob'', Size = 1048576, Hash = ''00''\<rparr>"

text \<open>The size of a record in hundredths of a megabyte, as the report prints it.\<close>

definition size_hundredths :: "HashedFileInfo \<Rightarrow> nat" where
  "size_hundredths r = hundredths (float64_div_1048576 (float64_of_int64 (Size r)))"

section \<open>An example environment\<close>

text \<open>
  A directory \<^verbatim>\<open>pics\<close> with three files: \<^verbatim>\<open>README\<close>, which is empty, and \<^verbatim>\<open>a.jpg\<close> and
  \<^verbatim>\<open>b.JPG\<close>, which both hold the three bytes \<^verbatim>\<open>abc\<close>. The digest function of the
  example is SHA-256 on the two contents that occur.
\<close>

definition sha256_abc :: string where
  "sha256_abc =
     [CHR 0xba, CHR 0x78, CHR 0x16, CHR 0xbf, CHR 0x8f, CHR 0x01, CHR 0xcf, CHR 0xea,
      CHR 0x41, CHR 0x41, CHR 0x40, CHR 0xde, CHR 0x5d, CHR 0xae, CHR 0x22, CHR 0x23,
      CHR 0xb0, CHR 0x03, CHR 0x61, CHR 0xa3, CHR 0x96, CHR 0x17, CHR 0x7a, CHR 0x9c,
      CHR 0xb4, CHR 0x10, CHR 0xff, CHR 0x61, CHR 0xf2, CHR 0x00, CHR 0x15, CHR 0xad]"

definition sha256_empty :: string where
  "sha256_empty =
     [CHR 0xe3, CHR 0xb0, CHR 0xc4, CHR 0x42, CHR 0x98, CHR 0xfc, CHR 0x1c, CHR 0x14,
      CHR 0x9a, CHR 0xfb, CHR 0xf4, CHR 0xc8, CHR 0x99, CHR 0x6f, CHR 0xb9, CHR 0x24,
      CHR 0x27, CHR 0xae, CHR 0x41, CHR 0xe4, CHR 0x64, CHR 0x9b, CHR 0x93, CHR 0x4c,
      CHR 0xa4, CHR 0x95, CHR 0x99, CHR 0x1b, CHR 0x78, CHR 0x52, CHR 0xb8, CHR 0x55]"

definition pics_Stat :: "string \<Rightarrow> error + FileInfo" where
  "pics_Stat p =
     (if p = ''pics'' then Inr \<lparr>fi_Name = ''pics'', fi_Size = 4096, fi_IsDir = True\<rparr>
      else if p = ''pics/README''
        then Inr \<lparr>fi_Name = ''README'', fi_Size = 0, fi_IsDir = False\<rparr>
      else if p = ''pics/a.jpg''
        then Inr \<lparr>fi_Name = ''a.jpg'', fi_Size = 3, fi_IsDir = False\<rparr>
      else if p = ''pics/b.JPG''
        then Inr \<lparr>fi_Name = ''b.JPG'', fi_Size = 3, fi_IsDir = False\<rparr>
      else Inl (''stat '' @ p @ '': no such file or directory''))"

definition pics_Open :: "string \<Rightarrow> error + File" where
  "pics_Open p =
     (if p = ''pics/README'' then Inr \<lparr>data = [], failure = None\<rparr>
      else if p = ''pics/a.jpg'' \<or> p = ''pics/b.JPG''
        then Inr \<lparr>data = ''abc'', failure = None\<rparr>
      else Inl (''open '' @ p @ '': no such file or directory''))"

definition pics_walk :: "string \<Rightarrow> walk_event list" where
  "pics_walk root =
     (if root = ''pics''
      then [\<lparr>ev_path = ''pics'', ev_IsDir = True, ev_err = None\<rparr>,
            \<lparr>ev_path = ''pics/README'', ev_IsDir = False, ev_err = None\<rparr>,
            \<lparr>ev_path = ''pics/a.jpg'', ev_IsDir = False, ev_err = None\<rparr>,
            \<lparr>ev_path = ''pics/b.JPG'', ev_IsDir = False, ev_err = None\<rparr>]
      else [\<lparr>ev_path = root, ev_IsDir = False,
             ev_err = Some (''lstat '' @ root @ '': no such file or directory'')\<rparr>])"

text \<open>
  The usage text of the command: the line of \<^verbatim>\<open>Use\<close>, the examples, and the flags.
\<close>

definition dupe_d_usage :: string where
  "dupe_d_usage =
     concat (map (\<lambda>line. line @ newline)
       [''Usage:'',
        ''  dupe-d [directory] [flags]'',
        [],
        ''Examples:'',
        ''  dupe-d '',
        ''  dupe-d /path/to/directory'',
        ''  dupe-d --ext jpg --ext png /path/to/directory'',
        ''  dupe-d --ext=jpg,png,pdf'',
        [],
        ''Flags:'',
        ''  -e, --ext strings   File extensions to process (can be specified multiple times or comma-separated)'',
        ''  -h, --help          help for dupe-d''])"

text \<open>
  The example environment. The report may grow to one mebibyte; a write beyond that
  fails as on a disk without room.
\<close>

definition pics_world :: world where
  "pics_world =
     \<lparr>os_Stat = pics_Stat,
      os_Open = pics_Open,
      os_Getwd = Inr ''/home/user'',
      os_Create = (\<lambda>name. None),
      filepath_Abs = (\<lambda>name. Inr (''/home/user/'' @ name)),
      walk = pics_walk,
      sha256_Sum = (\<lambda>bytes. if bytes = ''abc'' then sha256_abc else sha256_empty),
      time_Now_Format = ''20250101_120530'',
      disk_room = 1048576,
      disk_error = ''write hash_results_20250101_120530.csv: no space left on device'',
      cobra_UsageString = dupe_d_usage\<rparr>"

text \<open>The same, with \<^verbatim>\<open>a.jpg\<close> readable by nobody.\<close>

definition locked_world :: world where
  "locked_world =
     pics_world\<lparr>os_Open := (\<lambda>p. if p = ''pics/a.jpg''
                                then Inl ''open pics/a.jpg: permission denied''
                                else pics_Open p)\<rparr>"

text \<open>The directory \<^verbatim>\<open>pics\<close> again, on a disk that has no room left for the report.\<close>

definition full_disk :: world where
  "full_disk = pics_world\<lparr>disk_room := 0\<rparr>"

text \<open>
  A directory sixteen levels deep, each level with a name of 249 letters, so that its
  path has 4000 bytes, with the single file \<^verbatim>\<open>f\<close>, which holds the three bytes \<^verbatim>\<open>abc\<close>;
  and the disk has no room left for the report.
\<close>

definition deep_dir :: string where
  "deep_dir = concat (replicate 16 (CHR ''/'' # replicate 249 CHR ''d''))"

definition deep_file :: string where
  "deep_file = deep_dir @ ''/f''"

definition deep_Stat :: "string \<Rightarrow> error + FileInfo" where
  "deep_Stat p =
     (if p = deep_dir
        then Inr \<lparr>fi_Name = replicate 249 CHR ''d'', fi_Size = 4096, fi_IsDir = True\<rparr>
      else if p = deep_file
        then Inr \<lparr>fi_Name = ''f'', fi_Size = 3, fi_IsDir = False\<rparr>
      else Inl (''stat '' @ p @ '': no such file or directory''))"

definition deep_Open :: "string \<Rightarrow> error + File" where
  "deep_Open p =
     (if p = deep_file then Inr \<lparr>data = ''abc'', failure = None\<rparr>
      else Inl (''open '' @ p @ '': no such file or directory''))"

definition deep_walk :: "string \<Rightarrow> walk_event list" where
  "deep_walk root =
     (if root = deep_dir
      then [\<lparr>ev_path = deep_dir, ev_IsDir = True, ev_err = None\<rparr>,
            \<lparr>ev_path = deep_file, ev_IsDir = False, ev_err = None\<rparr>]
      else [\<lparr>ev_path = root, ev_IsDir = False,
             ev_err = Some (''lstat '' @ root @ '': no such file or directory'')\<rparr>])"

definition deep_world :: world where
  "deep_world =
     pics_world\<lparr>os_Stat := deep_Stat, os_Open := deep_Open, walk := deep_walk,
                 disk_room := 0\<rparr>"

text \<open>The record of the file \<^verbatim>\<open>f\<close>, and the state after the scan of the deep directory.\<close>

definition deep_f :: HashedFileInfo where
  "deep_f =
     \<lparr>Name = ''f'', Path = deep_file, Size = 3,
      Hash = ''ba7816bf8f01cfea414140de5dae2223b00361a396177a9cb410ff61f20015ad''\<rparr>"

definition deep_scanned :: state where
  "deep_scanned =
     \<lparr>stdout = [''Scanning folder: '' @ deep_dir @ newline,
                ''Processing all file types'' @ newline,
                ''Processing: '' @ deep_file @ newline],
      stderr = [],
      opened = [deep_file],
      created = []\<rparr>"

text \<open>The record of \<^verbatim>\<open>a.jpg\<close>.\<close>

definition a_jpg :: HashedFileInfo where
  "a_jpg =
     \<lparr>Name = ''a.jpg'', Path = ''pics/a.jpg'', Size = 3,
      Hash = ''ba7816bf8f01cfea414140de5dae2223b00361a396177a9cb410ff61f20015ad''\<rparr>"

section \<open>Properties of the extension normalizer\<close>

subsection \<open>Stripping\<close>

lemma starts_iff: "starts encs s \<longleftrightarrow> (\<exists>e\<in>set encs. e \<noteq> [] \<and> take (length e) s = e)"
  by (auto simp: starts_def find_None_iff)

lemma strip_fix: "\<not> starts encs s \<Longrightarrow> strip encs s = s"
  by (simp add: strip.simps starts_def)

lemma strip_not_starts: "\<not> starts encs (strip encs s)"
proof (induction encs s rule: strip.induct)
  case (1 encs s)
  show ?case
  proof (cases "find (\<lambda>e. e \<noteq> [] \<and> take (length e) s = e) encs")
    case None
    then have "strip encs s = s"
      by (simp add: strip.simps)
    with None show ?thesis
      by (simp add: starts_def)
  next
    case (Some e)
    then have "strip encs s = strip encs (drop (length e) s)"
      by (simp add: strip.simps)
    with 1 Some show ?thesis
      by simp
  qed
qed

lemma strip_is_suffix: "\<exists>p. s = p @ strip encs s"
proof (induction encs s rule: strip.induct)
  case (1 encs s)
  show ?case
  proof (cases "find (\<lambda>e. e \<noteq> [] \<and> take (length e) s = e) encs")
    case None
    then have "strip encs s = s"
      by (simp add: strip.simps)
    then show ?thesis
      by simp
  next
    case (Some e)
    then have eq: "strip encs s = strip encs (drop (length e) s)"
      by (simp add: strip.simps)
    from 1 Some obtain p where "drop (length e) s = p @ strip encs (drop (length e) s)"
      by blast
    then have "s = (take (length e) s @ p) @ strip encs s"
      using eq by (metis append_take_drop_id append.assoc)
    then show ?thesis
      by blast
  qed
qed

lemma take_eq_append: "take (length e) s = e \<Longrightarrow> take (length e) (s @ q) = e"
proof -
  assume h: "take (length e) s = e"
  then have "length e \<le> length s"
    by (metis length_take min.cobounded1)
  with h show ?thesis
    by simp
qed

lemma starts_append: "starts encs s \<Longrightarrow> starts encs (s @ q)"
  unfolding starts_iff using take_eq_append by blast

subsection \<open>Trimming\<close>

lemma TrimLeft_front: "no_space_front (TrimLeft s)"
  by (simp add: no_space_front_def TrimLeft_def strip_not_starts)

lemma TrimRight_back: "no_space_back (TrimRight s)"
  by (simp add: no_space_back_def TrimRight_def strip_not_starts)

lemma TrimRight_prefix: "\<exists>q. s = TrimRight s @ q"
proof -
  obtain p where "rev s = p @ strip (map rev space_runes) (rev s)"
    using strip_is_suffix by blast
  then have "rev (rev s) = rev (p @ strip (map rev space_runes) (rev s))"
    by simp
  then have "s = TrimRight s @ rev p"
    by (simp add: TrimRight_def)
  then show ?thesis ..
qed

lemma TrimLeft_suffix: "\<exists>p. s = p @ TrimLeft s"
  by (simp add: TrimLeft_def strip_is_suffix)

lemma TrimRight_front: "no_space_front s \<Longrightarrow> no_space_front (TrimRight s)"
proof -
  assume h: "no_space_front s"
  obtain q where "s = TrimRight s @ q"
    using TrimRight_prefix by blast
  then show ?thesis
    using h starts_append unfolding no_space_front_def by metis
qed

lemma TrimSpace_front: "no_space_front (TrimSpace s)"
  by (simp add: TrimSpace_def TrimRight_front TrimLeft_front)

lemma TrimSpace_back: "no_space_back (TrimSpace s)"
  by (simp add: TrimSpace_def TrimRight_back)

lemma TrimSpace_fix: "no_space_front s \<Longrightarrow> no_space_back s \<Longrightarrow> TrimSpace s = s"
  by (simp add: TrimSpace_def TrimLeft_def TrimRight_def no_space_front_def no_space_back_def
      strip_fix)

lemma TrimSpace_set: "set (TrimSpace s) \<subseteq> set s"
proof -
  obtain p where p: "s = p @ TrimLeft s"
    using TrimLeft_suffix by blast
  obtain q where q: "TrimLeft s = TrimRight (TrimLeft s) @ q"
    using TrimRight_prefix by blast
  have "set (TrimRight (TrimLeft s)) \<subseteq> set (TrimLeft s)"
    by (metis q set_append Un_upper1)
  moreover have "set (TrimLeft s) \<subseteq> set s"
    by (metis p set_append Un_upper2)
  ultimately show ?thesis
    by (simp add: TrimSpace_def)
qed

subsection \<open>A dot in front\<close>

lemma space_runes_no_dot: "e \<in> set space_runes \<Longrightarrow> CHR ''.'' \<notin> set e"
  by (auto simp: space_runes_def)

lemma dot_front: "no_space_front (CHR ''.'' # u)"
proof -
  have "\<not> (\<exists>e\<in>set space_runes. e \<noteq> [] \<and> take (length e) (CHR ''.'' # u) = e)"
  proof
    assume "\<exists>e\<in>set space_runes. e \<noteq> [] \<and> take (length e) (CHR ''.'' # u) = e"
    then obtain e where e: "e \<in> set space_runes" "e \<noteq> []"
        "take (length e) (CHR ''.'' # u) = e"
      by blast
    have "hd e = CHR ''.''"
    proof (cases e)
      case Nil
      with e(2) show ?thesis by simp
    next
      case (Cons a as)
      with e(3) show ?thesis by simp
    qed
    with e have "CHR ''.'' \<in> set e"
      by (metis hd_in_set)
    with e show False
      using space_runes_no_dot by blast
  qed
  then show ?thesis
    by (simp add: no_space_front_def starts_iff)
qed

lemma dot_back: "u \<noteq> [] \<Longrightarrow> no_space_back u \<Longrightarrow> no_space_back (CHR ''.'' # u)"
proof -
  assume ne: "u \<noteq> []" and nb: "no_space_back u"
  have "\<not> (\<exists>e\<in>set (map rev space_runes). e \<noteq> [] \<and> take (length e) (rev u @ ''.'') = e)"
  proof
    assume "\<exists>e\<in>set (map rev space_runes). e \<noteq> [] \<and> take (length e) (rev u @ ''.'') = e"
    then obtain e where e: "e \<in> set (map rev space_runes)" "e \<noteq> []"
        "take (length e) (rev u @ ''.'') = e"
      by blast
    from e(1) have nodot: "CHR ''.'' \<notin> set e"
      using space_runes_no_dot by auto
    show False
    proof (cases "length e \<le> length u")
      case True
      with e(3) have "take (length e) (rev u) = e"
        by simp
      with e(1,2) nb show False
        by (auto simp: no_space_back_def starts_iff)
    next
      case False
      with e(3) have "e = rev u @ take (length e - length u) ''.''"
        by simp
      moreover from False have "take (length e - length u) ''.'' = ''.''"
        by (cases "length e - length u") auto
      ultimately have "CHR ''.'' \<in> set e"
        by (metis in_set_conv_decomp append_assoc append_Cons)
      with nodot show False ..
    qed
  qed
  then show ?thesis
    by (simp add: no_space_back_def starts_iff)
qed

subsection \<open>Splitting\<close>

lemma Split_no_sep: "p \<in> set (Split s c) \<Longrightarrow> c \<notin> set p"
  by (induction s arbitrary: p) (auto split: if_splits list.splits)

lemma Split_single: "c \<notin> set s \<Longrightarrow> Split s c = [s]"
  by (induction s) auto

subsection \<open>The loops\<close>

lemma formatExtensions_inner_eq:
  "formatExtensions_inner acc xs
     = acc @ map add_dot (filter (\<lambda>t. t \<noteq> []) (map TrimSpace xs))"
  by (induction xs arbitrary: acc) (auto simp: Let_def add_dot_def HasPrefix_def)

lemma formatExtensions_outer_eq: "formatExtensions_outer acc raw = acc @ normalize_spec raw"
  by (induction raw arbitrary: acc) (auto simp: normalize_spec_def formatExtensions_inner_eq)

lemma formatExtensions_spec: "formatExtensions raw = normalize_spec raw"
  by (simp add: formatExtensions_def formatExtensions_outer_eq)

lemma add_dot_canonical:
  assumes "u \<noteq> []" "no_space_front u" "no_space_back u" "CHR '','' \<notin> set u"
  shows "canonical (add_dot u)"
  using assms by (auto simp: canonical_def add_dot_def HasPrefix_def dot_front dot_back)

lemma formatExtensions_canonical: "t \<in> set (formatExtensions raw) \<Longrightarrow> canonical t"
proof -
  assume "t \<in> set (formatExtensions raw)"
  then obtain token piece where tp: "token \<in> set raw" "piece \<in> set (Split token CHR '','')"
      "TrimSpace piece \<noteq> []" "t = add_dot (TrimSpace piece)"
    by (auto simp: formatExtensions_spec normalize_spec_def)
  from tp(2) have "CHR '','' \<notin> set piece"
    by (rule Split_no_sep)
  then have "CHR '','' \<notin> set (TrimSpace piece)"
    using TrimSpace_set by blast
  with tp(3,4) show ?thesis
    by (simp add: add_dot_canonical TrimSpace_front TrimSpace_back)
qed

lemma canonical_fix: "\<forall>t\<in>set ts. canonical t \<Longrightarrow> normalize_spec ts = ts"
proof (induction ts)
  case Nil
  show ?case by (simp add: normalize_spec_def)
next
  case (Cons t ts)
  then have c: "canonical t" and rest: "normalize_spec ts = ts"
    by simp_all
  from c have "Split t CHR '','' = [t]" "TrimSpace t = t" "t \<noteq> []" "add_dot t = t"
    by (simp_all add: canonical_def Split_single TrimSpace_fix add_dot_def HasPrefix_def)
  with rest show ?case
    by (simp add: normalize_spec_def)
qed

text \<open>
  Claim C5. \<^verbatim>\<open>formatExtensions\<close> splits every raw token on commas, trims each piece,
  drops the pieces that are empty after trimming, puts a dot in front of those that do
  not start with one, and returns the results in input order, duplicates kept and case
  untouched: it is the function \<open>normalize_spec\<close>. In particular the tokens \<^verbatim>\<open>"jpg"\<close> and
  \<^verbatim>\<open>" .png, txt "\<close> give \<^verbatim>\<open>".jpg"\<close>, \<^verbatim>\<open>".png"\<close>, \<^verbatim>\<open>".txt"\<close>, and the empty token gives
  nothing.
\<close>

theorem formatExtensions_normalizes:
  "formatExtensions raw = normalize_spec raw
   \<and> formatExtensions [''jpg'', '' .png, txt ''] = [''.jpg'', ''.png'', ''.txt'']
   \<and> formatExtensions [''''] = []
   \<and> formatExtensions [''JPG,jpg'', ''jpg''] = [''.JPG'', ''.jpg'', ''.jpg'']"
proof -
  have "formatExtensions [''jpg'', '' .png, txt ''] = [''.jpg'', ''.png'', ''.txt'']"
    by code_simp
  moreover have "formatExtensions [''''] = []"
    by code_simp
  moreover have "formatExtensions [''JPG,jpg'', ''jpg''] = [''.JPG'', ''.jpg'', ''.jpg'']"
    by code_simp
  ultimately show ?thesis
    by (simp add: formatExtensions_spec)
qed

text \<open>
  Claim C6. \<^verbatim>\<open>formatExtensions\<close> is idempotent: applied to its own output, it returns
  that output unchanged, for every list of raw tokens.
\<close>

theorem formatExtensions_idempotent:
  "formatExtensions (formatExtensions raw) = formatExtensions raw"
  using canonical_fix [of "formatExtensions raw"] formatExtensions_canonical
  by (simp add: formatExtensions_spec)

section \<open>Properties of the extension filter\<close>

lemma base_name_snoc:
  "base_name (xs @ [c]) = (if c = CHR ''/'' then [] else base_name xs @ [c])"
  by (simp add: base_name_def)

lemma ext_spec_snoc:
  "ext_spec (xs @ [c]) =
     (if c = CHR ''/'' then []
      else if c = CHR ''.'' then ''.''
      else if ext_spec xs = [] then [] else ext_spec xs @ [c])"
  by (simp add: ext_spec_def base_name_snoc)

lemma Ext_scan_spec:
  "i \<le> length path \<Longrightarrow>
     Ext_scan path i =
       (if ext_spec (take i path) = [] then [] else ext_spec (take i path) @ drop i path)"
proof (induction i)
  case 0
  show ?case by (simp add: ext_spec_def base_name_def)
next
  case (Suc i)
  then have lt: "i < length path" and IH: "Ext_scan path i =
       (if ext_spec (take i path) = [] then [] else ext_spec (take i path) @ drop i path)"
    by simp_all
  from lt have tk: "take (Suc i) path = take i path @ [path ! i]"
    by (simp add: take_Suc_conv_app_nth)
  from lt have dr: "drop i path = path ! i # drop (Suc i) path"
    by (simp add: Cons_nth_drop_Suc)
  show ?case
    by (simp add: tk ext_spec_snoc IH dr)
qed

lemma Ext_spec: "Ext path = ext_spec path"
  by (simp add: Ext_def Ext_scan_spec)

lemma matchesExtension_loop_mem: "matchesExtension_loop ext exts \<longleftrightarrow> ext \<in> set exts"
  by (induction exts) auto

lemma matchesExtension_mem:
  "matchesExtension path exts \<longleftrightarrow> exts = [] \<or> Ext path \<in> set exts"
  by (auto simp: matchesExtension_def matchesExtension_loop_mem)

text \<open>
  Claim C2. For every path and every filter, \<^verbatim>\<open>matchesExtension\<close> is true if and only
  if the filter is empty or the extension of the path, which is the substring from the
  last dot of the base name to the end and empty if there is none, is equal as a string
  to one of the entries of the filter. Equality is that of byte strings: an entry in
  another case or a wildcard entry matches nothing but itself.
\<close>

theorem matchesExtension_exact:
  "(matchesExtension path exts \<longleftrightarrow> exts = [] \<or> ext_spec path \<in> set exts)
   \<and> Ext path = ext_spec path
   \<and> matchesExtension ''photos/a.jpg'' [''.png'', ''.jpg'']
   \<and> \<not> matchesExtension ''photos/b.JPG'' [''.jpg'']
   \<and> \<not> matchesExtension ''photos/c.jpg'' [''.*'']
   \<and> \<not> matchesExtension ''photos.d/jpg'' [''.jpg'']"
proof -
  have "matchesExtension ''photos/a.jpg'' [''.png'', ''.jpg'']"
    by code_simp
  moreover have "\<not> matchesExtension ''photos/b.JPG'' [''.jpg'']"
    by code_simp
  moreover have "\<not> matchesExtension ''photos/c.jpg'' [''.*'']"
    by code_simp
  moreover have "\<not> matchesExtension ''photos.d/jpg'' [''.jpg'']"
    by code_simp
  ultimately show ?thesis
    by (simp add: matchesExtension_mem Ext_spec)
qed

section \<open>Properties of the hasher\<close>

lemma copy_loop_all:
  "0 < buflen \<Longrightarrow> copy_loop buflen rest ending written = (written @ rest, ending)"
proof (induction buflen rest ending written rule: copy_loop.induct)
  case (1 buflen rest ending written)
  show ?case
  proof (cases "rest = []")
    case True
    then show ?thesis by (simp add: copy_loop.simps)
  next
    case False
    with 1 have "copy_loop buflen (drop buflen rest) ending (written @ take buflen rest)
        = ((written @ take buflen rest) @ drop buflen rest, ending)"
      by simp
    with False 1(2) show ?thesis
      by (simp add: copy_loop.simps [of buflen rest])
  qed
qed

lemma hex_value_nth: "k < 16 \<Longrightarrow> hex_value (hexdigits ! k) = k"
proof -
  have "\<forall>k \<in> set [0..<16]. hex_value (hexdigits ! k) = k"
    by code_simp
  then show "k < 16 \<Longrightarrow> hex_value (hexdigits ! k) = k"
    by simp
qed

lemma hexdigit_mem: "k < 16 \<Longrightarrow> hexdigits ! k \<in> set hexdigits"
proof -
  have "length hexdigits = 16"
    by (simp add: hexdigits_def)
  then show "k < 16 \<Longrightarrow> hexdigits ! k \<in> set hexdigits"
    by (metis nth_mem)
qed

lemma byte_halves: "of_char b div 16 < (16::nat)" "of_char b mod 16 < (16::nat)"
proof -
  have "of_char b < (256::nat)" by simp
  then show "of_char b div 16 < (16::nat)" by (simp add: less_mult_imp_div_less)
  show "of_char b mod 16 < (16::nat)" by simp
qed

lemma Sprintf_x_charset: "set (Sprintf_x bytes) \<subseteq> set hexdigits"
  by (induction bytes) (simp_all add: Sprintf_x_def hexdigit_mem byte_halves)

lemma Sprintf_x_length: "length (Sprintf_x bytes) = 2 * length bytes"
  by (induction bytes) (simp_all add: Sprintf_x_def)

lemma unhex_Sprintf_x: "unhex (Sprintf_x bytes) = bytes"
proof (induction bytes)
  case Nil
  show ?case by (simp add: Sprintf_x_def)
next
  case (Cons b bytes)
  have "char_of (16 * (of_char b div 16) + of_char b mod (16::nat)) = b"
    by simp
  with Cons show ?case
    by (simp add: Sprintf_x_def hex_value_nth byte_halves)
qed

lemma hashFile_result:
  "hashFile w path st =
     ((case os_Open w path of
         Inl err \<Rightarrow> Inl err
       | Inr f \<Rightarrow> (case failure f of
                     Some err \<Rightarrow> Inl err
                   | None \<Rightarrow> Inr (Sprintf_x (sha256_Sum w (data f))))),
      st\<lparr>opened := opened st @ [path]\<rparr>)"
  by (simp add: hashFile_def io_CopyBuffer_def copy_loop_all Let_def
      split: sum.splits option.splits)

lemma hashFile_fails: "isl (fst (hashFile w path st)) \<longleftrightarrow> unreadable w path"
  by (simp add: hashFile_result unreadable_def split: sum.splits option.splits)

text \<open>
  Claim C1. For every path, \<^verbatim>\<open>hashFile\<close> opens the file and returns the lower-case
  hexadecimal encoding of the SHA-256 digest of all the bytes of the file, read through
  a buffer of 1 MiB; it returns an error exactly when the file cannot be opened or a
  read fails, and then the error of the open or of the read. The encoding has two
  digits of \<^verbatim>\<open>0123456789abcdef\<close> for every byte of the digest, and reading them back
  gives the digest.
\<close>

theorem hashFile_digest:
  "hashFile w path st =
     ((case os_Open w path of
         Inl err \<Rightarrow> Inl err
       | Inr f \<Rightarrow> (case failure f of
                     Some err \<Rightarrow> Inl err
                   | None \<Rightarrow> Inr (Sprintf_x (sha256_Sum w (data f))))),
      st\<lparr>opened := opened st @ [path]\<rparr>)
   \<and> (isl (fst (hashFile w path st)) \<longleftrightarrow> unreadable w path)
   \<and> set (Sprintf_x digest) \<subseteq> set ''0123456789abcdef''
   \<and> length (Sprintf_x digest) = 2 * length digest
   \<and> unhex (Sprintf_x digest) = digest"
proof -
  have "set (Sprintf_x digest) \<subseteq> set ''0123456789abcdef''"
    using Sprintf_x_charset [of digest] by (simp only: hexdigits_def)
  then show ?thesis
    using hashFile_result [of w path st] hashFile_fails [of w path st]
    by (simp only: Sprintf_x_length unhex_Sprintf_x simp_thms)
qed

section \<open>Properties of the file scanner\<close>

subsection \<open>The callback\<close>

lemma walkFn_error_iff: "fst (walkFn w exts ev (files, st)) \<noteq> None \<longleftrightarrow> faulty w exts ev"
  by (auto simp: walkFn_def faulty_def matched_def hashFile_result unreadable_def
      split: option.splits sum.splits)

lemma walkFn_faulty:
  "faulty w exts ev \<Longrightarrow> \<exists>err files' st'. walkFn w exts ev (files, st) = (Some err, files', st')"
proof -
  assume "faulty w exts ev"
  then have "fst (walkFn w exts ev (files, st)) \<noteq> None"
    using walkFn_error_iff by blast
  then obtain err where "fst (walkFn w exts ev (files, st)) = Some err"
    by auto
  then have "walkFn w exts ev (files, st)
      = (Some err, fst (snd (walkFn w exts ev (files, st))), snd (snd (walkFn w exts ev (files, st))))"
    by (metis prod.collapse)
  then show ?thesis
    by blast
qed

lemma walkFn_created: "created (snd (snd (walkFn w exts ev (files, st)))) = created st"
  by (simp add: walkFn_def hashFile_result printToStdOut_def split: option.splits sum.splits)

lemma walkFn_stderr: "stderr (snd (snd (walkFn w exts ev (files, st)))) = stderr st"
  by (simp add: walkFn_def hashFile_result printToStdOut_def split: option.splits sum.splits)

lemma walkFn_ok_paths:
  "fst (walkFn w exts ev (files, st)) = None \<Longrightarrow>
     map Path (fst (snd (walkFn w exts ev (files, st))))
       = map Path files @ (if matched exts ev then [ev_path ev] else [])"
  by (auto simp: walkFn_def matched_def hashFile_result
      split: option.splits sum.splits if_splits)

lemma walkFn_opened:
  "set (opened (snd (snd (walkFn w exts ev (files, st)))))
     \<subseteq> set (opened st) \<union> {p. matchesExtension p exts}"
  by (auto simp: walkFn_def hashFile_result printToStdOut_def split: option.splits sum.splits)

lemma walkFn_records:
  "\<forall>r\<in>set files. matchesExtension (Path r) exts \<Longrightarrow>
     \<forall>r\<in>set (fst (snd (walkFn w exts ev (files, st)))). matchesExtension (Path r) exts"
  by (auto simp: walkFn_def hashFile_result split: option.splits sum.splits if_splits)

lemma hashFile_walk_upd: "hashFile (w\<lparr>walk := x\<rparr>) p s = hashFile w p s"
  unfolding hashFile_result by (simp cong del: sum.case_cong_weak option.case_cong_weak)

lemma walkFn_walk_upd: "walkFn (w\<lparr>walk := x\<rparr>) exts e acc = walkFn w exts e acc"
  unfolding walkFn_def hashFile_walk_upd
  by (simp cong del: sum.case_cong_weak option.case_cong_weak prod.case_cong_weak if_weak_cong)

subsection \<open>The walk\<close>

lemma WalkDir_faulty:
  "\<exists>ev\<in>set evs. faulty w exts ev \<Longrightarrow>
     fst (WalkDir evs (walkFn w exts) (files, st)) \<noteq> None"
proof (induction evs arbitrary: files st)
  case Nil
  then show ?case by simp
next
  case (Cons ev evs)
  show ?case
  proof (cases "faulty w exts ev")
    case True
    then obtain err files' st' where "walkFn w exts ev (files, st) = (Some err, files', st')"
      using walkFn_faulty by blast
    then show ?thesis
      by simp
  next
    case False
    with Cons.prems have rest: "\<exists>ev\<in>set evs. faulty w exts ev"
      by simp
    from False have ok: "fst (walkFn w exts ev (files, st)) = None"
      using walkFn_error_iff by blast
    obtain files' st' where r: "walkFn w exts ev (files, st) = (None, files', st')"
      using ok by (metis prod.collapse)
    from Cons.IH [OF rest] show ?thesis
      by (simp add: r)
  qed
qed

lemma WalkDir_sound:
  "\<forall>ev\<in>set evs. \<not> faulty w exts ev \<Longrightarrow>
     fst (WalkDir evs (walkFn w exts) (files, st)) = None"
proof (induction evs arbitrary: files st)
  case Nil
  then show ?case by simp
next
  case (Cons ev evs)
  then have ok: "fst (walkFn w exts ev (files, st)) = None"
    using walkFn_error_iff by (metis list.set_intros(1))
  obtain files' st' where r: "walkFn w exts ev (files, st) = (None, files', st')"
    using ok by (metis prod.collapse)
  from Cons show ?case
    by (simp add: r)
qed

lemma WalkDir_cut:
  "faulty w exts ev \<Longrightarrow>
     WalkDir (pre @ ev # post) (walkFn w exts) acc = WalkDir (pre @ [ev]) (walkFn w exts) acc"
proof (induction pre arbitrary: acc)
  case Nil
  obtain files st where acc: "acc = (files, st)"
    by (cases acc)
  from Nil obtain err files' st' where "walkFn w exts ev (files, st) = (Some err, files', st')"
    using walkFn_faulty by blast
  then show ?case
    by (simp add: acc)
next
  case (Cons a pre)
  then show ?case
    by (simp split: prod.splits option.splits)
qed

lemma WalkDir_created:
  "created (snd (snd (WalkDir evs (walkFn w exts) (files, st)))) = created st"
proof (induction evs arbitrary: files st)
  case Nil
  show ?case by simp
next
  case (Cons ev evs)
  obtain r files' st' where r: "walkFn w exts ev (files, st) = (r, files', st')"
    by (metis prod.collapse)
  then have "created st' = created st"
    using walkFn_created [of w exts ev files st] by simp
  with Cons r show ?case
    by (cases r) simp_all
qed

lemma WalkDir_stderr:
  "stderr (snd (snd (WalkDir evs (walkFn w exts) (files, st)))) = stderr st"
proof (induction evs arbitrary: files st)
  case Nil
  show ?case by simp
next
  case (Cons ev evs)
  obtain r files' st' where r: "walkFn w exts ev (files, st) = (r, files', st')"
    by (metis prod.collapse)
  then have "stderr st' = stderr st"
    using walkFn_stderr [of w exts ev files st] by simp
  with Cons r show ?case
    by (cases r) simp_all
qed

lemma WalkDir_paths:
  "fst (WalkDir evs (walkFn w exts) (files, st)) = None \<Longrightarrow>
     map Path (fst (snd (WalkDir evs (walkFn w exts) (files, st))))
       = map Path files @ map ev_path (filter (matched exts) evs)"
proof (induction evs arbitrary: files st)
  case Nil
  show ?case by simp
next
  case (Cons ev evs)
  obtain r files' st' where r: "walkFn w exts ev (files, st) = (r, files', st')"
    by (metis prod.collapse)
  show ?case
  proof (cases r)
    case None
    with r have "map Path files' = map Path files @ (if matched exts ev then [ev_path ev] else [])"
      using walkFn_ok_paths [of w exts ev files st] by simp
    moreover from Cons.prems r None
    have "fst (WalkDir evs (walkFn w exts) (files', st')) = None"
      by simp
    ultimately show ?thesis
      using Cons.IH [of files' st'] r None by simp
  next
    case (Some e)
    with Cons.prems r show ?thesis by simp
  qed
qed

lemma WalkDir_opened:
  "set (opened (snd (snd (WalkDir evs (walkFn w exts) (files, st)))))
     \<subseteq> set (opened st) \<union> {p. matchesExtension p exts}"
proof (induction evs arbitrary: files st)
  case Nil
  show ?case by simp
next
  case (Cons ev evs)
  obtain r files' st' where r: "walkFn w exts ev (files, st) = (r, files', st')"
    by (metis prod.collapse)
  then have step: "set (opened st') \<subseteq> set (opened st) \<union> {p. matchesExtension p exts}"
    using walkFn_opened [of w exts ev files st] by simp
  show ?case
  proof (cases r)
    case None
    with r step Cons.IH [of files' st'] show ?thesis
      by auto
  next
    case (Some e)
    with r step show ?thesis by simp
  qed
qed

lemma WalkDir_records:
  "\<forall>r\<in>set files. matchesExtension (Path r) exts \<Longrightarrow>
     \<forall>r\<in>set (fst (snd (WalkDir evs (walkFn w exts) (files, st)))).
        matchesExtension (Path r) exts"
proof (induction evs arbitrary: files st)
  case Nil
  then show ?case by simp
next
  case (Cons ev evs)
  obtain r files' st' where r: "walkFn w exts ev (files, st) = (r, files', st')"
    by (metis prod.collapse)
  then have step: "\<forall>r\<in>set files'. matchesExtension (Path r) exts"
    using walkFn_records [OF Cons.prems, of w ev st] by simp
  show ?case
  proof (cases r)
    case None
    with r Cons.IH [OF step, of st'] show ?thesis
      by simp
  next
    case (Some e)
    with r step show ?thesis by simp
  qed
qed

subsection \<open>The scan\<close>

lemma processFiles_eq:
  "processFiles w folderPath exts st =
     (case WalkDir (walk w folderPath) (walkFn w exts) ([], announced folderPath exts st) of
        (Some err, files, st3) \<Rightarrow> (([], Some err), st3)
      | (None, files, st3) \<Rightarrow> ((files, None), st3))"
  by (simp add: processFiles_def announced_def Let_def)

lemma announced_fields:
  "created (announced folderPath exts st) = created st"
  "stderr (announced folderPath exts st) = stderr st"
  "opened (announced folderPath exts st) = opened st"
  by (simp_all add: announced_def printToStdOut_def)

lemma processFiles_created: "created (snd (processFiles w folderPath exts st)) = created st"
proof -
  obtain r files st3 where r:
    "WalkDir (walk w folderPath) (walkFn w exts) ([], announced folderPath exts st) = (r, files, st3)"
    by (metis prod.collapse)
  then have "created st3 = created (announced folderPath exts st)"
    using WalkDir_created [of "walk w folderPath" w exts "[]" "announced folderPath exts st"]
    by simp
  moreover have "snd (processFiles w folderPath exts st) = st3"
    using r by (cases r) (simp_all add: processFiles_eq)
  ultimately show ?thesis
    by (simp add: announced_fields)
qed

lemma processFiles_stderr: "stderr (snd (processFiles w folderPath exts st)) = stderr st"
proof -
  obtain r files st3 where r:
    "WalkDir (walk w folderPath) (walkFn w exts) ([], announced folderPath exts st) = (r, files, st3)"
    by (metis prod.collapse)
  then have "stderr st3 = stderr (announced folderPath exts st)"
    using WalkDir_stderr [of "walk w folderPath" w exts "[]" "announced folderPath exts st"]
    by simp
  moreover have "snd (processFiles w folderPath exts st) = st3"
    using r by (cases r) (simp_all add: processFiles_eq)
  ultimately show ?thesis
    by (simp add: announced_fields)
qed

lemma processFiles_faulty:
  assumes "\<exists>ev\<in>set (walk w folderPath). faulty w exts ev"
  shows "\<exists>err. fst (processFiles w folderPath exts st) = ([], Some err)"
proof -
  obtain r files st3 where r:
    "WalkDir (walk w folderPath) (walkFn w exts) ([], announced folderPath exts st) = (r, files, st3)"
    by (metis prod.collapse)
  from assms
  have "fst (WalkDir (walk w folderPath) (walkFn w exts) ([], announced folderPath exts st)) \<noteq> None"
    by (rule WalkDir_faulty)
  with r obtain err where "r = Some err"
    by auto
  with r show ?thesis
    by (simp add: processFiles_eq)
qed

lemma processFiles_sound:
  assumes "\<forall>ev\<in>set (walk w folderPath). \<not> faulty w exts ev"
  shows "snd (fst (processFiles w folderPath exts st)) = None"
proof -
  obtain r files st3 where r:
    "WalkDir (walk w folderPath) (walkFn w exts) ([], announced folderPath exts st) = (r, files, st3)"
    by (metis prod.collapse)
  from assms
  have "fst (WalkDir (walk w folderPath) (walkFn w exts) ([], announced folderPath exts st)) = None"
    by (rule WalkDir_sound)
  with r show ?thesis
    by (simp add: processFiles_eq)
qed

lemma processFiles_cut:
  assumes "walk w folderPath = pre @ ev # post" and "faulty w exts ev"
  shows "processFiles w folderPath exts st
       = processFiles (w\<lparr>walk := (walk w)(folderPath := pre @ [ev])\<rparr>) folderPath exts st"
proof -
  have f: "walkFn (w\<lparr>walk := (walk w)(folderPath := pre @ [ev])\<rparr>) exts = walkFn w exts"
    by (intro ext) (rule walkFn_walk_upd)
  have c: "WalkDir (walk w folderPath) (walkFn w exts) acc
      = WalkDir (pre @ [ev]) (walkFn w exts) acc" for acc
    unfolding assms(1) using assms(2) by (rule WalkDir_cut)
  show ?thesis
    unfolding processFiles_eq f c by simp
qed

lemma processFiles_paths:
  assumes "snd (fst (processFiles w folderPath exts st)) = None"
  shows "map Path (fst (fst (processFiles w folderPath exts st)))
       = map ev_path (filter (matched exts) (walk w folderPath))"
proof -
  obtain r files st3 where r:
    "WalkDir (walk w folderPath) (walkFn w exts) ([], announced folderPath exts st) = (r, files, st3)"
    by (metis prod.collapse)
  with assms have rn: "r = None"
    by (cases r) (simp_all add: processFiles_eq)
  with r have "map Path files = map ev_path (filter (matched exts) (walk w folderPath))"
    using WalkDir_paths [of "walk w folderPath" w exts "[]" "announced folderPath exts st"]
    by simp
  with r rn show ?thesis
    by (simp add: processFiles_eq)
qed

lemma processFiles_opened:
  "set (opened (snd (processFiles w folderPath exts st)))
     \<subseteq> set (opened st) \<union> {p. matchesExtension p exts}"
proof -
  obtain r files st3 where r:
    "WalkDir (walk w folderPath) (walkFn w exts) ([], announced folderPath exts st) = (r, files, st3)"
    by (metis prod.collapse)
  then have "set (opened st3) \<subseteq> set (opened st) \<union> {p. matchesExtension p exts}"
    using WalkDir_opened [of "walk w folderPath" w exts "[]" "announced folderPath exts st"]
    by (simp add: announced_fields)
  moreover have "snd (processFiles w folderPath exts st) = st3"
    using r by (cases r) (simp_all add: processFiles_eq)
  ultimately show ?thesis
    by simp
qed

lemma processFiles_records:
  "\<forall>r\<in>set (fst (fst (processFiles w folderPath exts st))). matchesExtension (Path r) exts"
proof -
  obtain r files st3 where r:
    "WalkDir (walk w folderPath) (walkFn w exts) ([], announced folderPath exts st) = (r, files, st3)"
    by (metis prod.collapse)
  have "\<forall>r\<in>set (fst (snd (WalkDir (walk w folderPath) (walkFn w exts)
            ([], announced folderPath exts st)))). matchesExtension (Path r) exts"
    by (rule WalkDir_records) simp
  with r show ?thesis
    by (cases r) (simp_all add: processFiles_eq)
qed

subsection \<open>Errors of the scan\<close>

lemma RunE_eq:
  assumes "getFolderPath w args = Inr folderPath"
    and "processFiles w folderPath (formatExtensions extensions) st = ((files, r), st1)"
  shows "RunE w extensions args st
       = (case r of Some err \<Rightarrow> (Some err, st1) | None \<Rightarrow> writeToCsv w files st1)"
  using assms by (simp add: RunE_def split: option.splits prod.splits)

lemma RunE_scan_error:
  assumes "getFolderPath w args = Inr folderPath"
    and "fst (processFiles w folderPath (formatExtensions extensions) st) = (files, Some err)"
  shows "RunE w extensions args st
       = (Some err, snd (processFiles w folderPath (formatExtensions extensions) st))"
proof -
  obtain st1 where "processFiles w folderPath (formatExtensions extensions) st
      = ((files, Some err), st1)"
    using assms(2) by (metis prod.collapse)
  then show ?thesis
    using RunE_eq [OF assms(1), of extensions st files "Some err" st1] by simp
qed

text \<open>
  Claim C3. If any entry of the walk is faulty, that is, the traversal reports an error
  for it, or it is a matched file that cannot be opened, read to the end, or examined by
  \<^verbatim>\<open>os.Stat\<close>, then \<^verbatim>\<open>processFiles\<close> returns an error and no record at all, and it
  creates no file. It stops at the faulty entry: the result is the same as for a walk
  that ends there. The command then returns the error without writing a report.
\<close>

theorem scan_error_aborts:
  assumes "\<exists>ev\<in>set (walk w folderPath). faulty w exts ev"
  shows "(\<exists>err. fst (processFiles w folderPath exts st) = ([], Some err))
    \<and> created (snd (processFiles w folderPath exts st)) = created st
    \<and> (\<forall>pre ev post. walk w folderPath = pre @ ev # post \<and> faulty w exts ev \<longrightarrow>
          processFiles w folderPath exts st
            = processFiles (w\<lparr>walk := (walk w)(folderPath := pre @ [ev])\<rparr>) folderPath exts st)
    \<and> (getFolderPath w args = Inr folderPath \<and> formatExtensions extensions = exts \<longrightarrow>
          (\<exists>err. fst (RunE w extensions args st) = Some err)
          \<and> created (snd (RunE w extensions args st)) = created st)"
proof -
  from assms obtain err where err: "fst (processFiles w folderPath exts st) = ([], Some err)"
    using processFiles_faulty by blast
  have cut: "\<forall>pre ev post. walk w folderPath = pre @ ev # post \<and> faulty w exts ev \<longrightarrow>
          processFiles w folderPath exts st
            = processFiles (w\<lparr>walk := (walk w)(folderPath := pre @ [ev])\<rparr>) folderPath exts st"
    using processFiles_cut by blast
  have run: "getFolderPath w args = Inr folderPath \<and> formatExtensions extensions = exts \<longrightarrow>
          (\<exists>err. fst (RunE w extensions args st) = Some err)
          \<and> created (snd (RunE w extensions args st)) = created st"
  proof
    assume h: "getFolderPath w args = Inr folderPath \<and> formatExtensions extensions = exts"
    with err have "RunE w extensions args st
        = (Some err, snd (processFiles w folderPath (formatExtensions extensions) st))"
      using RunE_scan_error [of w args folderPath extensions st "[]" err] by simp
    then show "(\<exists>err. fst (RunE w extensions args st) = Some err)
          \<and> created (snd (RunE w extensions args st)) = created st"
      by (simp add: processFiles_created)
  qed
  from err cut run show ?thesis
    by (simp only: processFiles_created simp_thms) blast
qed

text \<open>The hypotheses of C3 hold in the example with the locked file.\<close>

lemma locked_faulty:
  "\<exists>ev\<in>set (walk locked_world ''pics''). faulty locked_world [''.jpg''] ev"
  by (simp add: locked_world_def pics_world_def pics_walk_def faulty_def matched_def
      matchesExtension_def Ext_def unreadable_def)

lemma locked_folder: "getFolderPath locked_world [''pics''] = Inr ''pics''"
  by (simp add: getFolderPath_def validateDirectory_def locked_world_def pics_world_def
      pics_Stat_def)

lemma fmt_jpg: "formatExtensions [''jpg''] = [''.jpg'']"
  by code_simp

theorem scan_error_aborts_witness:
  "(\<exists>ev\<in>set (walk locked_world ''pics''). faulty locked_world [''.jpg''] ev)
   \<and> getFolderPath locked_world [''pics''] = Inr ''pics''
   \<and> formatExtensions [''jpg''] = [''.jpg'']
   \<and> (\<exists>err. fst (processFiles locked_world ''pics'' [''.jpg''] init_state) = ([], Some err))
   \<and> (\<exists>err. fst (RunE locked_world [''jpg''] [''pics''] init_state) = Some err)
   \<and> created (snd (RunE locked_world [''jpg''] [''pics''] init_state)) = []"
  using scan_error_aborts [OF locked_faulty, of init_state "[''pics'']" "[''jpg'']"]
    locked_faulty locked_folder fmt_jpg
  by (simp add: init_state_def)

subsection \<open>Files without an extension\<close>

lemma canonical_dot: "canonical t \<Longrightarrow> t \<noteq> [] \<and> hd t = CHR ''.''"
  by (cases t) (simp_all add: canonical_def HasPrefix_def)

lemma no_dot_ext: "CHR ''.'' \<notin> set (base_name path) \<Longrightarrow> Ext path = []"
  by (simp add: Ext_spec ext_spec_def)

lemma dotless_unmatched:
  assumes "\<forall>t\<in>set exts. t \<noteq> []" and "exts \<noteq> []" and "CHR ''.'' \<notin> set (base_name path)"
  shows "\<not> matchesExtension path exts"
proof -
  from assms(3) have "Ext path = []"
    by (rule no_dot_ext)
  with assms(1,2) show ?thesis
    by (auto simp: matchesExtension_mem)
qed

text \<open>
  Claim C9. Every token that \<^verbatim>\<open>formatExtensions\<close> produces is non-empty and begins with
  a dot. Hence, when the normalized filter is not empty, a path whose base name has no
  dot has the empty extension and is not matched; no scan with that filter records it,
  and no such scan opens it for hashing.
\<close>

theorem dotless_entry_skipped:
  "(\<forall>t\<in>set (formatExtensions raw). t \<noteq> [] \<and> hd t = CHR ''.'')
   \<and> (formatExtensions raw \<noteq> [] \<and> CHR ''.'' \<notin> set (base_name path) \<longrightarrow>
        Ext path = []
        \<and> \<not> matchesExtension path (formatExtensions raw)
        \<and> path \<notin> Path ` set (fst (fst (processFiles w folderPath (formatExtensions raw) st)))
        \<and> (path \<notin> set (opened st) \<longrightarrow>
             path \<notin> set (opened (snd (processFiles w folderPath (formatExtensions raw) st)))))"
proof -
  have dots: "\<forall>t\<in>set (formatExtensions raw). t \<noteq> [] \<and> hd t = CHR ''.''"
    using formatExtensions_canonical canonical_dot by blast
  have skip: "Ext path = []
        \<and> \<not> matchesExtension path (formatExtensions raw)
        \<and> path \<notin> Path ` set (fst (fst (processFiles w folderPath (formatExtensions raw) st)))
        \<and> (path \<notin> set (opened st) \<longrightarrow>
             path \<notin> set (opened (snd (processFiles w folderPath (formatExtensions raw) st))))"
    if h: "formatExtensions raw \<noteq> []" "CHR ''.'' \<notin> set (base_name path)"
  proof -
    from dots h have un: "\<not> matchesExtension path (formatExtensions raw)"
      using dotless_unmatched [of "formatExtensions raw" path] by blast
    have "path \<notin> Path ` set (fst (fst (processFiles w folderPath (formatExtensions raw) st)))"
      using un processFiles_records [of w folderPath "formatExtensions raw" st] by blast
    moreover have "path \<notin> set (opened st) \<longrightarrow>
             path \<notin> set (opened (snd (processFiles w folderPath (formatExtensions raw) st)))"
      using un processFiles_opened [of w folderPath "formatExtensions raw" st] by blast
    ultimately show ?thesis
      using un h(2) by (simp add: no_dot_ext)
  qed
  from dots skip show ?thesis
    by blast
qed

text \<open>The hypotheses of C9 hold for the file \<^verbatim>\<open>README\<close> of the example.\<close>

lemma README_dotless: "CHR ''.'' \<notin> set (base_name ''pics/README'')"
  by (simp add: base_name_def)

theorem dotless_entry_skipped_witness:
  "formatExtensions [''jpg''] \<noteq> []
   \<and> CHR ''.'' \<notin> set (base_name ''pics/README'')
   \<and> ''pics/README'' \<notin> set (opened init_state)
   \<and> \<not> matchesExtension ''pics/README'' (formatExtensions [''jpg''])
   \<and> ''pics/README''
        \<notin> Path ` set (fst (fst (processFiles pics_world ''pics'' (formatExtensions [''jpg'']) init_state)))
   \<and> ''pics/README''
        \<notin> set (opened (snd (processFiles pics_world ''pics'' (formatExtensions [''jpg'']) init_state)))"
proof -
  have a: "formatExtensions [''jpg''] \<noteq> []"
    by (simp add: fmt_jpg)
  have b: "''pics/README'' \<notin> set (opened init_state)"
    by (simp add: init_state_def)
  from dotless_entry_skipped [of "[''jpg'']" "''pics/README''" pics_world "''pics''" init_state]
    a b README_dotless
  show ?thesis
    by blast
qed

section \<open>Properties of the report writer\<close>

lemma bufio_WriteString_fits:
  "w_err b = None \<Longrightarrow> length (w_buf b) + length s \<le> buffer_size \<Longrightarrow>
     bufio_WriteString w b s = (None, b\<lparr>w_buf := w_buf b @ s\<rparr>)"
  by (subst bufio_WriteString.simps) (auto simp: bufio_Available_def)

lemma bufio_WriteByte_fits:
  "w_err b = None \<Longrightarrow> length (w_buf b) < buffer_size \<Longrightarrow>
     bufio_WriteByte w b c = (None, b\<lparr>w_buf := w_buf b @ [c]\<rparr>)"
  by (simp add: bufio_WriteByte_def bufio_Available_def)

lemma bufio_WriteString_failed:
  "w_err b = Some e \<Longrightarrow> bufio_WriteString w b s = (Some e, b)"
  by (subst bufio_WriteString.simps) simp

lemma bufio_WriteString_no_room:
  assumes "w_err b = None" and "w_buf b \<noteq> []"
    and "buffer_size < length (w_buf b) + length s"
    and "length (w_buf b) \<le> buffer_size"
    and "disk_room w \<le> length (w_out b)"
  shows "bufio_WriteString w b s
       = (Some (disk_error w),
          b\<lparr>w_buf := w_buf b @ take (buffer_size - length (w_buf b)) s,
            w_err := Some (disk_error w)\<rparr>)"
proof -
  let ?b1 = "b\<lparr>w_buf := w_buf b @ take (bufio_Available b) s\<rparr>"
  from assms(2) have "0 < length (w_buf b)"
    by simp
  with assms(5) have "\<not> length (w_out b) + length (w_buf ?b1) \<le> disk_room w"
    by (simp del: length_greater_0_conv)
  then have f: "bufio_Flush w ?b1 = ?b1\<lparr>w_err := Some (disk_error w)\<rparr>"
    using assms by (simp add: bufio_Flush_def os_File_Write_def)
  have "bufio_WriteString w b s
      = bufio_WriteString w (bufio_Flush w ?b1) (drop (bufio_Available b) s)"
  proof -
    from assms(3,4) have "bufio_Available b < length s"
      by (simp add: bufio_Available_def)
    with assms(1,2) show ?thesis
      by (subst bufio_WriteString.simps) simp
  qed
  also have "\<dots> = (Some (disk_error w), ?b1\<lparr>w_err := Some (disk_error w)\<rparr>)"
    by (simp only: f) (simp add: bufio_WriteString_failed)
  finally show ?thesis
    by (simp add: bufio_Available_def)
qed

lemma writeToCsv_eq:
  "writeToCsv w hashedFilesInfo st =
     (case os_Create w (outputFilename w) of
        Some err \<Rightarrow> (Some (''failed to create CSV file: '' @ err), st)
      | None \<Rightarrow>
         (case csv_Write w \<lparr>w_buf = [], w_err = None, w_out = []\<rparr> header of
            (Some err, writer) \<Rightarrow>
              (Some (''failed to write header to CSV: '' @ err),
               close_file w (outputFilename w) writer st)
          | (None, writer) \<Rightarrow>
             (case writeToCsv_loop w hashedFilesInfo writer of
                (Some err, writer') \<Rightarrow> (Some err, close_file w (outputFilename w) writer' st)
              | (None, writer') \<Rightarrow>
                 (None,
                  close_file w (outputFilename w) writer'
                    (printToStdOut
                       (''Output written to: ''
                          @ (case filepath_Abs w (outputFilename w) of
                               Inl err \<Rightarrow> outputFilename w
                             | Inr p \<Rightarrow> p)
                          @ newline) st)))))"
  by (simp only: writeToCsv_def outputFilename_def Let_def)

lemma writeToCsv_create_fails:
  "os_Create w (outputFilename w) = Some err \<Longrightarrow>
     writeToCsv w hs st = (Some (''failed to create CSV file: '' @ err), st)"
  by (simp add: writeToCsv_eq)

lemma writeToCsv_created:
  "os_Create w (outputFilename w) = None \<Longrightarrow>
     \<exists>content. created (snd (writeToCsv w hs st)) = created st @ [(outputFilename w, content)]"
  by (simp add: writeToCsv_eq close_file_def printToStdOut_def
      split: prod.splits option.splits sum.splits)

lemma writeToCsv_stderr: "stderr (snd (writeToCsv w hs st)) = stderr st"
  by (simp add: writeToCsv_eq close_file_def printToStdOut_def
      split: prod.splits option.splits sum.splits)

lemma header_plain: "\<not> csv_fieldNeedsQuotes ''Name''" "\<not> csv_fieldNeedsQuotes ''Path''"
  "\<not> csv_fieldNeedsQuotes ''Size (MB)''" "\<not> csv_fieldNeedsQuotes ''Hash''"
  by (simp_all add: csv_fieldNeedsQuotes_def starts_def space_runes_def)

lemma header_written:
  "csv_Write w \<lparr>w_buf = [], w_err = None, w_out = []\<rparr> header
     = (None, \<lparr>w_buf = ''Name,Path,Size (MB),Hash'' @ newline, w_err = None, w_out = []\<rparr>)"
  by (simp add: csv_Write_def header_def header_plain bufio_WriteString_fits
      bufio_WriteByte_fits buffer_size_def newline_def)

section \<open>Properties of the size column\<close>

subsection \<open>Decimal digits\<close>

lemma digit_mem: "d < 10 \<Longrightarrow> digit d \<in> set ''0123456789''"
proof -
  have "length ''0123456789'' = 10"
    by simp
  then show "d < 10 \<Longrightarrow> digit d \<in> set ''0123456789''"
    unfolding digit_def by (metis nth_mem)
qed

lemma digit_value: "d < 10 \<Longrightarrow> of_char (digit d) - 48 = d"
proof -
  have "\<forall>d \<in> set [0..<10]. of_char (digit d) - 48 = (d::nat)"
    by (simp add: digit_def upt_rec)
  then show "d < 10 \<Longrightarrow> of_char (digit d) - 48 = d"
    by simp
qed

lemma show_nat_digits: "set (show_nat n) \<subseteq> set ''0123456789''"
proof (induction n rule: show_nat.induct)
  case (1 n)
  show ?case
  proof (cases "n < 10")
    case True
    then show ?thesis
      using digit_mem [of n] by (simp add: show_nat.simps [of n])
  next
    case False
    have "digit (n mod 10) \<in> set ''0123456789''"
      by (rule digit_mem) simp
    with False 1 show ?thesis
      by (simp add: show_nat.simps [of n])
  qed
qed

lemma show_nat_nonempty: "show_nat n \<noteq> []"
  by (simp add: show_nat.simps [of n])

lemma read_nat_snoc: "read_nat (s @ [c]) = 10 * read_nat s + (of_char c - 48)"
  by (simp add: read_nat_def)

lemma read_show_nat: "read_nat (show_nat n) = n"
proof (induction n rule: show_nat.induct)
  case (1 n)
  show ?case
  proof (cases "n < 10")
    case True
    then show ?thesis
      by (simp add: show_nat.simps [of n] read_nat_def digit_value)
  next
    case False
    have "of_char (digit (n mod 10)) - 48 = n mod 10"
      by (rule digit_value) simp
    with False 1 show ?thesis
      by (simp add: show_nat.simps [of n] read_nat_snoc)
  qed
qed

lemma round_half_even_near:
  assumes "0 < d"
  shows "2 * (a - round_half_even a d * d) \<le> d \<and> 2 * (round_half_even a d * d - a) \<le> d"
proof -
  have a: "a = (a div d) * d + a mod d"
    by simp
  have r: "a mod d < d"
    using assms by simp
  have up: "(a div d + 1) * d - a = d - a mod d"
    by (metis a add.commute add_diff_cancel_left' diff_diff_left distrib_right mult_1)
  have dn: "a - (a div d) * d = a mod d"
    by (metis a add_diff_cancel_left')
  have le: "(a div d) * d \<le> a"
    by simp
  show ?thesis
    using r up dn le by (auto simp: round_half_even_def Let_def)
qed

lemma bit_len_bounds: "0 < n \<Longrightarrow> 2 ^ (bit_len n - 1) \<le> n \<and> n < 2 ^ bit_len n"
proof (induction n rule: bit_len.induct)
  case (1 n)
  show ?case
  proof (cases "n div 2 = 0")
    case True
    with 1(2) have "n = 1"
      by (simp add: div_eq_0_iff)
    then show ?thesis
      by (simp add: bit_len.simps)
  next
    case False
    with 1 have IH: "2 ^ (bit_len (n div 2) - 1) \<le> n div 2 \<and> n div 2 < 2 ^ bit_len (n div 2)"
      by simp
    from False have pos: "0 < bit_len (n div 2)"
      by (simp add: bit_len.simps [of "n div 2"])
    have b: "bit_len n = Suc (bit_len (n div 2))"
      using 1(2) by (simp add: bit_len.simps [of n])
    define p where "p = (2::nat) ^ (bit_len (n div 2) - 1)"
    from pos have pw: "(2::nat) ^ bit_len (n div 2) = 2 * p"
      unfolding p_def by (cases "bit_len (n div 2)") simp_all
    from IH have "p \<le> n div 2" "n div 2 < 2 * p"
      by (simp_all add: p_def pw [unfolded p_def])
    then have "2 * p \<le> n" "n < 4 * p"
      by arith+
    then show ?thesis
      by (simp add: b pw)
  qed
qed

subsection \<open>Rounding\<close>

lemma round_half_even_ge: "a div d \<le> round_half_even a d"
  by (simp add: round_half_even_def Let_def)

lemma round_half_even_one: "round_half_even a (Suc 0) = a"
  by (simp add: round_half_even_def)

lemma float64_magnitude_pos:
  assumes "0 < a"
  shows "0 < round_half_even a (2 ^ (bit_len a - 53)) * 2 ^ (bit_len a - 53)"
proof -
  from assms have "2 ^ (bit_len a - 1) \<le> a"
    using bit_len_bounds by blast
  moreover have "(2::nat) ^ (bit_len a - 53) \<le> 2 ^ (bit_len a - 1)"
    by (rule power_increasing) simp_all
  ultimately have "(2::nat) ^ (bit_len a - 53) \<le> a"
    by (rule le_trans [rotated])
  then have "1 \<le> a div 2 ^ (bit_len a - 53)"
    by (simp add: div_greater_zero_iff Suc_le_eq)
  then have "1 \<le> round_half_even a (2 ^ (bit_len a - 53))"
    using round_half_even_ge [of a "2 ^ (bit_len a - 53)"] by linarith
  then show ?thesis
    by simp
qed

lemma float64_sign: "fst (float64_of_int64 n) < 0 \<longleftrightarrow> sint n < 0"
proof (cases "sint n < 0")
  case True
  then have "0 < nat \<bar>sint n\<bar>"
    by simp
  from float64_magnitude_pos [OF this] True show ?thesis
    by (simp add: float64_of_int64_def Let_def)
next
  case False
  have "\<not> int m < 0" for m
    by simp
  with False show ?thesis
    unfolding float64_of_int64_def Let_def by (simp only: if_False fst_conv)
qed

lemma float64_exact:
  assumes "\<bar>sint n\<bar> < 2 ^ 53"
  shows "float64_of_int64 n = (sint n, 0)"
proof -
  define a where "a = nat \<bar>sint n\<bar>"
  from assms have lt: "a < 2 ^ 53"
    by (simp add: a_def nat_less_iff)
  have "bit_len a \<le> 53"
  proof (cases "a = 0")
    case True
    then show ?thesis by (simp add: bit_len.simps)
  next
    case False
    then have "2 ^ (bit_len a - 1) \<le> a"
      using bit_len_bounds by blast
    with lt have "(2::nat) ^ (bit_len a - 1) < 2 ^ 53"
      by linarith
    then have "bit_len a - 1 < 53"
      by (simp only: power_strict_increasing_iff rel_simps)
    then show ?thesis by simp
  qed
  then have e: "bit_len a - 53 = 0"
    by simp
  show ?thesis
    unfolding float64_of_int64_def Let_def a_def [symmetric] e
    by (simp add: round_half_even_one a_def)
qed

lemma Sprintf_2f_shape:
  "Sprintf_2f (float64_div_1048576 (float64_of_int64 (Size r)))
     = (if sint (Size r) < 0 then ''-'' else [])
         @ show_nat (size_hundredths r div 100) @ ''.''
         @ [digit (size_hundredths r mod 100 div 10), digit (size_hundredths r mod 10)]"
proof -
  have "fst (float64_div_1048576 (float64_of_int64 (Size r))) = fst (float64_of_int64 (Size r))"
    by (simp add: float64_div_1048576_def split: prod.splits)
  then show ?thesis
    by (simp add: Sprintf_2f_def size_hundredths_def float64_sign)
qed

lemma near_int:
  fixes a u :: nat
  assumes "2 * (a - u) \<le> 1048576" and "2 * (u - a) \<le> 1048576"
  shows "2 * \<bar>int u - int a\<bar> \<le> 1048576"
proof (cases "a \<le> u")
  case True
  then have "\<bar>int u - int a\<bar> = int (u - a)"
    by (simp add: of_nat_diff)
  moreover from assms(2) have "2 * int (u - a) \<le> 1048576"
    by linarith
  ultimately show ?thesis
    by simp
next
  case False
  then have "\<bar>int u - int a\<bar> = int (a - u)"
    by (simp add: of_nat_diff)
  moreover from assms(1) have "2 * int (a - u) \<le> 1048576"
    by linarith
  ultimately show ?thesis
    by simp
qed

lemma two_digits: "(h::nat) mod 100 = 10 * (h mod 100 div 10) + h mod 10"
proof -
  have "h mod 100 mod 10 = h mod 10"
    by (simp add: mod_mod_cancel)
  moreover have "h mod 100 = 10 * (h mod 100 div 10) + h mod 100 mod 10"
    by simp
  ultimately show ?thesis
    by simp
qed

lemma size_hundredths_near:
  assumes "\<bar>sint (Size r)\<bar> < 2 ^ 53"
  shows "2 * \<bar>int (size_hundredths r) * 1048576 - 100 * \<bar>sint (Size r)\<bar>\<bar> \<le> 1048576"
proof -
  define a where "a = nat \<bar>sint (Size r)\<bar> * 100"
  define h where "h = round_half_even a 1048576"
  have sh: "size_hundredths r = h"
    by (simp add: size_hundredths_def float64_exact [OF assms] float64_div_1048576_def
        hundredths_def h_def a_def)
  have "2 * (a - h * 1048576) \<le> 1048576 \<and> 2 * (h * 1048576 - a) \<le> 1048576"
    unfolding h_def by (rule round_half_even_near) simp
  moreover have "int a = 100 * \<bar>sint (Size r)\<bar>"
    by (simp add: a_def)
  ultimately have "2 * \<bar>int (h * 1048576) - int a\<bar> \<le> 1048576"
    using near_int [of a "h * 1048576"] by blast
  then show ?thesis
    unfolding sh using \<open>int a = 100 * \<bar>sint (Size r)\<bar>\<close> by simp
qed

lemma one_MiB_field: "csv_record one_MiB ! 2 = ''1.00''"
proof -
  have "bit_len 1048576 = 21"
    by (simp add: bit_len.simps)
  then show ?thesis
    by (simp add: csv_record_def one_MiB_def float64_of_int64_def float64_div_1048576_def
        round_half_even_def Sprintf_2f_def hundredths_def show_nat.simps digit_def)
qed

lemma size_field: "csv_record r ! 2 = Sprintf_2f (float64_div_1048576 (float64_of_int64 (Size r)))"
  by (simp add: csv_record_def)

lemma size_field_shape: "csv_record r ! 2
       = (if sint (Size r) < 0 then ''-'' else [])
           @ show_nat (size_hundredths r div 100) @ ''.''
           @ [digit (size_hundredths r mod 100 div 10), digit (size_hundredths r mod 10)]"
  unfolding size_field by (rule Sprintf_2f_shape)

lemma read_two_digits: "read_nat [digit (h mod 100 div 10), digit (h mod 10)] = h mod 100"
proof -
  have d1: "of_char (digit (h mod 100 div 10)) - 48 = h mod 100 div 10"
    by (rule digit_value) (simp add: less_mult_imp_div_less)
  have d2: "of_char (digit (h mod 10)) - 48 = h mod 10"
    by (rule digit_value) simp
  show ?thesis
    using two_digits [of h] by (simp add: read_nat_def d1 d2)
qed

text \<open>
  Claim C8. For every record, the third field of its line in the report is the byte
  count, converted to \<^verbatim>\<open>float64\<close> and divided by \<^verbatim>\<open>1048576.0\<close>, printed with \<^verbatim>\<open>%.2f\<close>:
  an optional minus sign, the decimal digits of the whole part, a point, and exactly
  two decimal digits. Read as a number of hundredths, it is \<open>size_hundredths\<close>, and for
  a byte count below \<open>2 ^ 53\<close> in magnitude this differs from the byte count divided by
  1048576 by at most half a hundredth. A count of 1048576 bytes is printed as \<^verbatim>\<open>1.00\<close>.
\<close>

theorem size_in_megabytes:
  "csv_record r ! 2 = Sprintf_2f (float64_div_1048576 (float64_of_int64 (Size r)))
   \<and> csv_record r ! 2
       = (if sint (Size r) < 0 then ''-'' else [])
           @ show_nat (size_hundredths r div 100) @ ''.''
           @ [digit (size_hundredths r mod 100 div 10), digit (size_hundredths r mod 10)]
   \<and> set (show_nat (size_hundredths r div 100)) \<subseteq> set ''0123456789''
   \<and> read_nat (show_nat (size_hundredths r div 100)) = size_hundredths r div 100
   \<and> read_nat [digit (size_hundredths r mod 100 div 10), digit (size_hundredths r mod 10)]
       = size_hundredths r mod 100
   \<and> (\<bar>sint (Size r)\<bar> < 2 ^ 53 \<longrightarrow>
        2 * \<bar>int (size_hundredths r) * 1048576 - 100 * \<bar>sint (Size r)\<bar>\<bar> \<le> 1048576)
   \<and> csv_record one_MiB ! 2 = ''1.00''"
proof (intro conjI impI)
  show "csv_record r ! 2 = Sprintf_2f (float64_div_1048576 (float64_of_int64 (Size r)))"
    by (rule size_field)
  show "csv_record r ! 2
       = (if sint (Size r) < 0 then ''-'' else [])
           @ show_nat (size_hundredths r div 100) @ ''.''
           @ [digit (size_hundredths r mod 100 div 10), digit (size_hundredths r mod 10)]"
    by (rule size_field_shape)
  show "set (show_nat (size_hundredths r div 100)) \<subseteq> set ''0123456789''"
    by (rule show_nat_digits)
  show "read_nat (show_nat (size_hundredths r div 100)) = size_hundredths r div 100"
    by (rule read_show_nat)
  show "read_nat [digit (size_hundredths r mod 100 div 10), digit (size_hundredths r mod 10)]
       = size_hundredths r mod 100"
    by (rule read_two_digits)
  show "2 * \<bar>int (size_hundredths r) * 1048576 - 100 * \<bar>sint (Size r)\<bar>\<bar> \<le> 1048576"
    if "\<bar>sint (Size r)\<bar> < 2 ^ 53"
    using that by (rule size_hundredths_near)
  show "csv_record one_MiB ! 2 = ''1.00''"
    by (rule one_MiB_field)
qed

text \<open>The hypothesis of C8 holds for a record of one mebibyte.\<close>

lemma one_MiB_hundredths: "size_hundredths one_MiB = 100"
proof -
  have "bit_len 1048576 = 21"
    by (simp add: bit_len.simps)
  then show ?thesis
    by (simp add: size_hundredths_def one_MiB_def float64_of_int64_def float64_div_1048576_def
        round_half_even_def hundredths_def)
qed

theorem size_in_megabytes_witness:
  "\<bar>sint (Size one_MiB)\<bar> < 2 ^ 53
   \<and> size_hundredths one_MiB = 100
   \<and> 2 * \<bar>int (size_hundredths one_MiB) * 1048576 - 100 * \<bar>sint (Size one_MiB)\<bar>\<bar> \<le> 1048576
   \<and> csv_record one_MiB ! 2 = ''1.00''"
proof -
  have a: "\<bar>sint (Size one_MiB)\<bar> < 2 ^ 53"
    by (simp add: one_MiB_def)
  from size_in_megabytes [of one_MiB] a one_MiB_hundredths show ?thesis
    by blast
qed

section \<open>Properties of the command\<close>

lemma main_eq:
  "main w extensions args st =
     (0, case fst (Execute w extensions args st) of
           Some err \<Rightarrow> printToStdErr err (snd (Execute w extensions args st))
         | None \<Rightarrow> snd (Execute w extensions args st))"
  by (simp add: main_def split: prod.splits option.splits)

lemma Execute_eq:
  "Execute w extensions args st =
     (case fst (rootCmd w extensions args st) of
        Some err \<Rightarrow>
          (Some err,
           (snd (rootCmd w extensions args st))
             \<lparr>stderr := stderr (snd (rootCmd w extensions args st))
                          @ [''Error: '' @ err @ newline, cobra_UsageString w @ newline]\<rparr>)
      | None \<Rightarrow> (None, snd (rootCmd w extensions args st)))"
  by (simp add: Execute_def split: prod.splits option.splits)

lemma Execute_fst: "fst (Execute w extensions args st) = fst (rootCmd w extensions args st)"
  by (simp add: Execute_eq split: option.splits)

lemma Execute_created:
  "created (snd (Execute w extensions args st)) = created (snd (rootCmd w extensions args st))"
  by (simp add: Execute_eq split: option.splits)

lemma rootCmd_too_many:
  "length args > 1 \<Longrightarrow>
     rootCmd w extensions args st
       = (Some (''accepts at most 1 arg(s), received '' @ show_nat (length args)), st)"
  by (simp add: rootCmd_def)

lemma rootCmd_no_folder:
  "length args \<le> 1 \<Longrightarrow> getFolderPath w args = Inl err \<Longrightarrow>
     rootCmd w extensions args st = (Some err, st)"
  by (simp add: rootCmd_def RunE_def)

lemma rootCmd_folder:
  assumes "length args \<le> 1" and "getFolderPath w args = Inr folderPath"
    and "processFiles w folderPath (formatExtensions extensions) st = ((files, r), st1)"
  shows "rootCmd w extensions args st
       = (case r of Some err \<Rightarrow> (Some err, st1) | None \<Rightarrow> writeToCsv w files st1)"
  using assms RunE_eq [OF assms(2,3)] by (simp add: rootCmd_def)

lemma rootCmd_stderr: "stderr (snd (rootCmd w extensions args st)) = stderr st"
proof (cases "length args > 1")
  case True
  then show ?thesis by (simp add: rootCmd_too_many)
next
  case False
  then have le: "length args \<le> 1" by simp
  show ?thesis
  proof (cases "getFolderPath w args")
    case (Inl err)
    with le show ?thesis by (simp add: rootCmd_no_folder)
  next
    case (Inr folderPath)
    obtain files r st1 where pf:
      "processFiles w folderPath (formatExtensions extensions) st = ((files, r), st1)"
      by (metis prod.collapse)
    then have "stderr st1 = stderr st"
      using processFiles_stderr [of w folderPath "formatExtensions extensions" st] by simp
    then show ?thesis
      using rootCmd_folder [OF le Inr pf] by (cases r) (simp_all add: writeToCsv_stderr)
  qed
qed

lemma rootCmd_not_created:
  "\<not> report_created w extensions args st \<Longrightarrow>
     created (snd (rootCmd w extensions args st)) = created st"
proof (cases "length args > 1")
  case True
  then show ?thesis by (simp add: rootCmd_too_many)
next
  case False
  then have le: "length args \<le> 1" by simp
  assume nr: "\<not> report_created w extensions args st"
  show ?thesis
  proof (cases "getFolderPath w args")
    case (Inl err)
    with le show ?thesis by (simp add: rootCmd_no_folder)
  next
    case (Inr folderPath)
    obtain files r st1 where pf:
      "processFiles w folderPath (formatExtensions extensions) st = ((files, r), st1)"
      by (metis prod.collapse)
    then have c1: "created st1 = created st"
      using processFiles_created [of w folderPath "formatExtensions extensions" st] by simp
    show ?thesis
    proof (cases r)
      case (Some err)
      with c1 show ?thesis
        using rootCmd_folder [OF le Inr pf] by simp
    next
      case None
      with nr le Inr pf obtain err where "os_Create w (outputFilename w) = Some err"
        by (auto simp: report_created_def)
      with None c1 show ?thesis
        using rootCmd_folder [OF le Inr pf] by (simp add: writeToCsv_create_fails)
    qed
  qed
qed

lemma rootCmd_created:
  "report_created w extensions args st \<Longrightarrow>
     \<exists>content. created (snd (rootCmd w extensions args st))
                  = created st @ [(outputFilename w, content)]"
proof -
  assume rc: "report_created w extensions args st"
  then have le: "length args \<le> 1" and cr: "os_Create w (outputFilename w) = None"
    by (simp_all add: report_created_def)
  from rc obtain folderPath where f: "getFolderPath w args = Inr folderPath"
    and ok: "snd (fst (processFiles w folderPath (formatExtensions extensions) st)) = None"
    by (auto simp: report_created_def split: sum.splits)
  obtain files r st1 where pf:
    "processFiles w folderPath (formatExtensions extensions) st = ((files, r), st1)"
    by (metis prod.collapse)
  with ok have r: "r = None" by simp
  from pf have c1: "created st1 = created st"
    using processFiles_created [of w folderPath "formatExtensions extensions" st] by simp
  from writeToCsv_created [OF cr, of files st1] c1 r show ?thesis
    using rootCmd_folder [OF le f pf] by simp
qed

text \<open>
  Claim C4, as amended. Whenever the command fails with an error, the error is printed
  to standard error: the command library prints \<^verbatim>\<open>Error: \<close> with the message and the
  usage text, and then \<^verbatim>\<open>main\<close> prints \<^verbatim>\<open>Error: \<close> with the message once more. \<^verbatim>\<open>main\<close>
  then returns, so that the exit status is 0. No output file is produced when the failure
  comes before the report is created (arguments, directory, scan, or \<^verbatim>\<open>os.Create\<close>
  itself); when a write to the report fails, the file that \<^verbatim>\<open>os.Create\<close> made is left in
  place.
\<close>

theorem failure_reported:
  "fst (Execute w extensions args st) = Some err \<longrightarrow>
     fst (main w extensions args st) = 0
     \<and> stderr (snd (main w extensions args st))
         = stderr st @ [''Error: '' @ err @ newline,
                        cobra_UsageString w @ newline,
                        ''Error: '' @ err @ newline]
     \<and> (\<not> report_created w extensions args st \<longrightarrow>
          created (snd (main w extensions args st)) = created st)
     \<and> (report_created w extensions args st \<longrightarrow>
          (\<exists>content. created (snd (main w extensions args st))
                        = created st @ [(outputFilename w, content)]))"
proof
  assume e: "fst (Execute w extensions args st) = Some err"
  then have r: "fst (rootCmd w extensions args st) = Some err"
    by (simp add: Execute_fst)
  from e have m: "snd (main w extensions args st)
      = printToStdErr err (snd (Execute w extensions args st))"
    by (simp add: main_eq)
  have "stderr (snd (Execute w extensions args st))
      = stderr st @ [''Error: '' @ err @ newline, cobra_UsageString w @ newline]"
    using r by (simp add: Execute_eq rootCmd_stderr)
  then have "stderr (snd (main w extensions args st))
      = stderr st @ [''Error: '' @ err @ newline,
                     cobra_UsageString w @ newline,
                     ''Error: '' @ err @ newline]"
    by (simp add: m printToStdErr_def)
  moreover have "created (snd (main w extensions args st))
      = created (snd (rootCmd w extensions args st))"
    by (simp add: m printToStdErr_def Execute_created)
  ultimately show "fst (main w extensions args st) = 0
     \<and> stderr (snd (main w extensions args st))
         = stderr st @ [''Error: '' @ err @ newline,
                        cobra_UsageString w @ newline,
                        ''Error: '' @ err @ newline]
     \<and> (\<not> report_created w extensions args st \<longrightarrow>
          created (snd (main w extensions args st)) = created st)
     \<and> (report_created w extensions args st \<longrightarrow>
          (\<exists>content. created (snd (main w extensions args st))
                        = created st @ [(outputFilename w, content)]))"
    using rootCmd_not_created [of w extensions args st] rootCmd_created [of w extensions args st]
    by (simp add: main_eq)
qed

section \<open>The examples\<close>

subsection \<open>The report of one file\<close>

lemmas pics_defs = pics_world_def locked_world_def full_disk_def pics_walk_def pics_Stat_def
  pics_Open_def

lemma a_jpg_record:
  "csv_record a_jpg
     = [''a.jpg'', ''pics/a.jpg'', ''0.00'',
        ''ba7816bf8f01cfea414140de5dae2223b00361a396177a9cb410ff61f20015ad'']"
proof -
  have "bit_len 3 = 2"
    by (simp add: bit_len.simps)
  then show ?thesis
    by (simp add: csv_record_def a_jpg_def float64_of_int64_def float64_div_1048576_def
        round_half_even_def Sprintf_2f_def hundredths_def show_nat.simps digit_def)
qed

lemma a_jpg_plain:
  "\<not> csv_fieldNeedsQuotes ''a.jpg''" "\<not> csv_fieldNeedsQuotes ''pics/a.jpg''"
  "\<not> csv_fieldNeedsQuotes ''0.00''"
  "\<not> csv_fieldNeedsQuotes ''ba7816bf8f01cfea414140de5dae2223b00361a396177a9cb410ff61f20015ad''"
  by (simp_all add: csv_fieldNeedsQuotes_def starts_def space_runes_def)

lemma a_jpg_written:
  assumes "w_err b = None" and "length (w_buf b) + 87 \<le> buffer_size"
  shows "csv_Write w b (csv_record a_jpg)
     = (None,
        b\<lparr>w_buf := w_buf b
                 @ ''a.jpg,pics/a.jpg,0.00,ba7816bf8f01cfea414140de5dae2223b00361a396177a9cb410ff61f20015ad''
                 @ newline\<rparr>)"
  using assms
  by (simp add: csv_Write_def a_jpg_record a_jpg_plain bufio_WriteString_fits
      bufio_WriteByte_fits newline_def)

lemma full_disk_write:
  "writeToCsv full_disk [a_jpg] init_state =
     (None,
      \<lparr>stdout = [''Output written to: /home/user/hash_results_20250101_120530.csv'' @ newline],
       stderr = [], opened = [],
       created = [(''hash_results_20250101_120530.csv'', [])]\<rparr>)"
  by (simp add: writeToCsv_eq header_written a_jpg_written buffer_size_def newline_def
      close_file_def csv_Flush_def bufio_Flush_def os_File_Write_def outputFilename_def
      printToStdOut_def init_state_def full_disk_def pics_world_def)

lemma pics_write:
  "writeToCsv pics_world [a_jpg] init_state =
     (None,
      \<lparr>stdout = [''Output written to: /home/user/hash_results_20250101_120530.csv'' @ newline],
       stderr = [], opened = [],
       created = [(''hash_results_20250101_120530.csv'',
                   ''Name,Path,Size (MB),Hash'' @ newline
                   @ ''a.jpg,pics/a.jpg,0.00,ba7816bf8f01cfea414140de5dae2223b00361a396177a9cb410ff61f20015ad''
                   @ newline)]\<rparr>)"
  by (simp add: writeToCsv_eq header_written a_jpg_written buffer_size_def newline_def
      close_file_def csv_Flush_def bufio_Flush_def os_File_Write_def outputFilename_def
      printToStdOut_def init_state_def pics_world_def)

subsection \<open>The run with the locked file\<close>

lemma locked_scan:
  "processFiles locked_world ''pics'' [''.jpg''] init_state =
     (([], Some ''failed to hash file pics/a.jpg: open pics/a.jpg: permission denied''),
      \<lparr>stdout = [''Scanning folder: pics'' @ newline, ''Filtering by extensions: .jpg'' @ newline,
                 ''Processing: pics/a.jpg'' @ newline],
       stderr = [], opened = [''pics/a.jpg''], created = []\<rparr>)"
  by (simp add: processFiles_eq announced_def walkFn_def matchesExtension_def Ext_def
      hashFile_result printToStdOut_def init_state_def pics_defs)

lemma locked_run:
  "fst (Execute locked_world [''jpg''] [''pics''] init_state)
     = Some ''failed to hash file pics/a.jpg: open pics/a.jpg: permission denied''"
proof -
  have "processFiles locked_world ''pics'' (formatExtensions [''jpg'']) init_state =
     (([], Some ''failed to hash file pics/a.jpg: open pics/a.jpg: permission denied''),
      \<lparr>stdout = [''Scanning folder: pics'' @ newline, ''Filtering by extensions: .jpg'' @ newline,
                 ''Processing: pics/a.jpg'' @ newline],
       stderr = [], opened = [''pics/a.jpg''], created = []\<rparr>)"
    by (simp only: fmt_jpg locked_scan)
  from rootCmd_folder [OF _ locked_folder this] show ?thesis
    by (simp add: Execute_fst)
qed

lemma locked_not_created: "\<not> report_created locked_world [''jpg''] [''pics''] init_state"
  using processFiles_faulty [OF locked_faulty, of init_state]
  by (auto simp: report_created_def locked_folder fmt_jpg)

subsection \<open>The run in the deep directory\<close>

lemma deep_length: "length deep_dir = 4000" "length deep_file = 4002"
  by (simp_all add: deep_file_def deep_dir_def length_concat sum_list_replicate)

lemma deep_distinct: "deep_file \<noteq> deep_dir" "deep_dir \<noteq> deep_file"
  by (simp_all add: deep_file_def)

lemma deep_chars: "set deep_file = {CHR ''/'', CHR ''d'', CHR ''f''}"
  by (auto simp: deep_file_def deep_dir_def)

lemma deep_first: "\<exists>rest. deep_file = CHR ''/'' # rest"
  by (simp add: deep_file_def deep_dir_def numeral_eq_Suc)

lemma deep_plain: "\<not> csv_fieldNeedsQuotes deep_file"
proof -
  from deep_first obtain rest where r: "deep_file = CHR ''/'' # rest"
    by blast
  have "\<not> starts space_runes (CHR ''/'' # rest)"
    by (simp add: starts_def space_runes_def)
  moreover have "\<not> list_ex (\<lambda>c. c = CHR 0x0A \<or> c = CHR 0x0D \<or> c = CHR 0x22 \<or> c = CHR '','')
                     deep_file"
    by (simp add: list_ex_iff deep_chars)
  moreover have "deep_file \<noteq> []" "deep_file \<noteq> [CHR 0x5C, CHR ''.'']"
    by (simp_all add: r)
  ultimately show ?thesis
    by (simp add: csv_fieldNeedsQuotes_def r [symmetric])
qed

lemma deep_folder: "getFolderPath deep_world [deep_dir] = Inr deep_dir"
  by (simp add: getFolderPath_def validateDirectory_def deep_world_def deep_Stat_def)

lemma deep_scan: "processFiles deep_world deep_dir [] init_state = (([deep_f], None), deep_scanned)"
  by (simp add: processFiles_eq announced_def walkFn_def matchesExtension_def
      hashFile_result printToStdOut_def init_state_def deep_world_def pics_world_def
      deep_walk_def deep_Stat_def deep_Open_def deep_distinct deep_f_def deep_scanned_def
      Sprintf_x_def sha256_abc_def hexdigits_def)

lemma deep_record:
  "csv_record deep_f
     = [''f'', deep_file, ''0.00'',
        ''ba7816bf8f01cfea414140de5dae2223b00361a396177a9cb410ff61f20015ad'']"
proof -
  have "bit_len 3 = 2"
    by (simp add: bit_len.simps)
  then show ?thesis
    by (simp add: csv_record_def deep_f_def float64_of_int64_def float64_div_1048576_def
        round_half_even_def Sprintf_2f_def hundredths_def show_nat.simps digit_def)
qed

lemma fmt_none: "formatExtensions [] = []"
  by (simp add: formatExtensions_def)

lemma f_plain: "\<not> csv_fieldNeedsQuotes ''f''"
  by (simp add: csv_fieldNeedsQuotes_def starts_def space_runes_def)

lemma deep_row:
  assumes "w_err b = None" and "w_out b = []" and "length (w_buf b) = 25"
  shows "csv_Write deep_world b (csv_record deep_f)
     = (Some ''write hash_results_20250101_120530.csv: no space left on device'',
        b\<lparr>w_buf := w_buf b @ ''f,'' @ deep_file @ '',0.00,''
                   @ ''ba7816bf8f01cfea414140de5dae2223b00361a396177a9cb410ff61f2001'',
          w_err := Some ''write hash_results_20250101_120530.csv: no space left on device''\<rparr>)"
proof -
  have room: "disk_room deep_world = 0"
    and err: "disk_error deep_world
                = ''write hash_results_20250101_120530.csv: no space left on device''"
    by (simp_all add: deep_world_def pics_world_def)
  from assms show ?thesis
    by (simp add: csv_Write_def deep_record f_plain deep_plain a_jpg_plain
        bufio_WriteString_fits bufio_WriteByte_fits bufio_WriteString_no_room
        buffer_size_def deep_length room err)
qed

lemma deep_write:
  "writeToCsv deep_world [deep_f] deep_scanned =
     (Some ''failed to write content to CSV: write hash_results_20250101_120530.csv: no space left on device'',
      deep_scanned\<lparr>created := [(''hash_results_20250101_120530.csv'', [])]\<rparr>)"
proof -
  have "os_Create deep_world (outputFilename deep_world) = None"
    and "outputFilename deep_world = ''hash_results_20250101_120530.csv''"
    by (simp_all add: deep_world_def pics_world_def outputFilename_def)
  then show ?thesis
    by (simp add: writeToCsv_eq header_written deep_row newline_def close_file_def
        csv_Flush_def bufio_Flush_def deep_scanned_def)
qed

lemma deep_run:
  "Execute deep_world [] [deep_dir] init_state =
     (Some ''failed to write content to CSV: write hash_results_20250101_120530.csv: no space left on device'',
      deep_scanned
        \<lparr>stderr := [''Error: failed to write content to CSV: write hash_results_20250101_120530.csv: no space left on device'' @ newline,
                     dupe_d_usage @ newline],
         created := [(''hash_results_20250101_120530.csv'', [])]\<rparr>)"
proof -
  have "processFiles deep_world deep_dir (formatExtensions []) init_state
      = (([deep_f], None), deep_scanned)"
    by (simp only: fmt_none deep_scan)
  from rootCmd_folder [OF _ deep_folder this]
  have "rootCmd deep_world [] [deep_dir] init_state = writeToCsv deep_world [deep_f] deep_scanned"
    by simp
  moreover have "cobra_UsageString deep_world = dupe_d_usage"
    by (simp add: deep_world_def pics_world_def)
  moreover have "stderr deep_scanned = []"
    by (simp add: deep_scanned_def)
  ultimately show ?thesis
    by (simp add: Execute_def deep_write)
qed

lemma deep_created: "report_created deep_world [] [deep_dir] init_state"
proof -
  have "processFiles deep_world deep_dir (formatExtensions []) init_state
      = (([deep_f], None), deep_scanned)"
    by (simp only: fmt_none deep_scan)
  moreover have "os_Create deep_world (outputFilename deep_world) = None"
    by (simp add: deep_world_def pics_world_def)
  ultimately show ?thesis
    by (simp add: report_created_def deep_folder)
qed

text \<open>
  Claim C4 as stated fails in both examples. With the locked file the command fails in
  the scan and prints the error, and the exit status is 0. In the deep directory on the
  disk without room, the row of the file does not fit into what is left of the buffer of
  the writer, the buffer cannot be written out, and the command fails; the exit status
  is 0 again, and the report file exists, with no content.
\<close>

theorem failure_exit_status_counterexample:
  "fst (Execute locked_world [''jpg''] [''pics''] init_state)
     = Some ''failed to hash file pics/a.jpg: open pics/a.jpg: permission denied''
   \<and> fst (main locked_world [''jpg''] [''pics''] init_state) = 0
   \<and> fst (Execute deep_world [] [deep_dir] init_state)
     = Some ''failed to write content to CSV: write hash_results_20250101_120530.csv: no space left on device''
   \<and> fst (main deep_world [] [deep_dir] init_state) = 0
   \<and> created (snd (main deep_world [] [deep_dir] init_state))
       = [(''hash_results_20250101_120530.csv'', [])]"
  by (simp add: main_eq locked_run deep_run printToStdErr_def)

text \<open>
  The hypotheses of the amended C4 hold in the two examples: with the locked file the
  failure comes before the report is created, in the deep directory after.
\<close>

theorem failure_reported_witness:
  "fst (Execute locked_world [''jpg''] [''pics''] init_state)
     = Some ''failed to hash file pics/a.jpg: open pics/a.jpg: permission denied''
   \<and> \<not> report_created locked_world [''jpg''] [''pics''] init_state
   \<and> fst (main locked_world [''jpg''] [''pics''] init_state) = 0
   \<and> stderr (snd (main locked_world [''jpg''] [''pics''] init_state))
       = [''Error: failed to hash file pics/a.jpg: open pics/a.jpg: permission denied'' @ newline,
          dupe_d_usage @ newline,
          ''Error: failed to hash file pics/a.jpg: open pics/a.jpg: permission denied'' @ newline]
   \<and> created (snd (main locked_world [''jpg''] [''pics''] init_state)) = []
   \<and> fst (Execute deep_world [] [deep_dir] init_state)
     = Some ''failed to write content to CSV: write hash_results_20250101_120530.csv: no space left on device''
   \<and> report_created deep_world [] [deep_dir] init_state
   \<and> fst (main deep_world [] [deep_dir] init_state) = 0
   \<and> stderr (snd (main deep_world [] [deep_dir] init_state))
       = [''Error: failed to write content to CSV: write hash_results_20250101_120530.csv: no space left on device'' @ newline,
          dupe_d_usage @ newline,
          ''Error: failed to write content to CSV: write hash_results_20250101_120530.csv: no space left on device'' @ newline]
   \<and> (\<exists>content. created (snd (main deep_world [] [deep_dir] init_state))
                    = [(''hash_results_20250101_120530.csv'', content)])"
proof -
  have e1: "fst (Execute locked_world [''jpg''] [''pics''] init_state)
     = Some ''failed to hash file pics/a.jpg: open pics/a.jpg: permission denied''"
    by (simp add: locked_run)
  have e2: "fst (Execute deep_world [] [deep_dir] init_state)
     = Some ''failed to write content to CSV: write hash_results_20250101_120530.csv: no space left on device''"
    by (simp add: deep_run)
  have u: "cobra_UsageString locked_world = dupe_d_usage"
    "cobra_UsageString deep_world = dupe_d_usage"
    "outputFilename deep_world = ''hash_results_20250101_120530.csv''"
    by (simp_all add: locked_world_def deep_world_def pics_world_def outputFilename_def)
  have i: "stderr init_state = []" "created init_state = []"
    by (simp_all add: init_state_def)
  from failure_reported [of locked_world "[''jpg'']" "[''pics'']" init_state
      "''failed to hash file pics/a.jpg: open pics/a.jpg: permission denied''"]
    failure_reported [of deep_world "[]" "[deep_dir]" init_state
      "''failed to write content to CSV: write hash_results_20250101_120530.csv: no space left on device''"]
    e1 e2 locked_not_created deep_created
  show ?thesis
    by (simp add: u i)
qed

subsection \<open>The report on a disk without room\<close>

lemma writeToCsv_empty:
  "writeToCsv w [] st =
     (case os_Create w (outputFilename w) of
        Some err \<Rightarrow> (Some (''failed to create CSV file: '' @ err), st)
      | None \<Rightarrow>
          (None,
           (printToStdOut
              (''Output written to: ''
                 @ (case filepath_Abs w (outputFilename w) of
                      Inl err \<Rightarrow> outputFilename w
                    | Inr p \<Rightarrow> p)
                 @ newline) st)
             \<lparr>created := created st
                @ [(outputFilename w,
                    take (disk_room w) (''Name,Path,Size (MB),Hash'' @ newline))]\<rparr>))"
  by (simp add: writeToCsv_eq header_written close_file_def csv_Flush_def bufio_Flush_def
      os_File_Write_def printToStdOut_def newline_def split: option.splits)

text \<open>
  Claim C7 fails on a disk without room. \<^verbatim>\<open>writeToCsv\<close>, given the record of \<^verbatim>\<open>a.jpg\<close>,
  returns no error and prints \<^verbatim>\<open>Output written to: \<close> with the path, and the file it made
  holds nothing, neither the header nor the row: both were in the buffer of the writer,
  and the error of the deferred \<^verbatim>\<open>writer.Flush()\<close> is not looked at. On the disk with
  room the same call leaves the header and the row in the file.
\<close>

theorem writeToCsv_unchecked_flush:
  "writeToCsv full_disk [a_jpg] init_state =
     (None,
      \<lparr>stdout = [''Output written to: /home/user/hash_results_20250101_120530.csv'' @ newline],
       stderr = [], opened = [],
       created = [(''hash_results_20250101_120530.csv'', [])]\<rparr>)
   \<and> writeToCsv pics_world [a_jpg] init_state =
     (None,
      \<lparr>stdout = [''Output written to: /home/user/hash_results_20250101_120530.csv'' @ newline],
       stderr = [], opened = [],
       created = [(''hash_results_20250101_120530.csv'',
                   ''Name,Path,Size (MB),Hash'' @ newline
                   @ ''a.jpg,pics/a.jpg,0.00,ba7816bf8f01cfea414140de5dae2223b00361a396177a9cb410ff61f20015ad''
                   @ newline)]\<rparr>)"
  by (simp only: full_disk_write pics_write simp_thms)

lemma fmt_png: "formatExtensions [''png''] = [''.png'']"
  by code_simp

lemma pics_folder: "getFolderPath pics_world [''pics''] = Inr ''pics''"
  by (simp add: getFolderPath_def validateDirectory_def pics_defs)

lemma full_folder: "getFolderPath full_disk [''pics''] = Inr ''pics''"
  by (simp add: getFolderPath_def validateDirectory_def pics_defs)

lemma pics_scan_png:
  "processFiles pics_world ''pics'' [''.png''] init_state =
     (([], None),
      \<lparr>stdout = [''Scanning folder: pics'' @ newline, ''Filtering by extensions: .png'' @ newline],
       stderr = [], opened = [], created = []\<rparr>)"
  by (simp add: processFiles_eq announced_def walkFn_def matchesExtension_def Ext_def
      printToStdOut_def init_state_def pics_defs)

lemma full_scan_png:
  "processFiles full_disk ''pics'' [''.png''] init_state =
     (([], None),
      \<lparr>stdout = [''Scanning folder: pics'' @ newline, ''Filtering by extensions: .png'' @ newline],
       stderr = [], opened = [], created = []\<rparr>)"
  by (simp add: processFiles_eq announced_def walkFn_def matchesExtension_def Ext_def
      printToStdOut_def init_state_def pics_defs)

lemma empty_run:
  assumes "getFolderPath w [''pics''] = Inr ''pics''"
    and "processFiles w ''pics'' [''.png''] init_state =
     (([], None),
      \<lparr>stdout = [''Scanning folder: pics'' @ newline, ''Filtering by extensions: .png'' @ newline],
       stderr = [], opened = [], created = []\<rparr>)"
    and "os_Create w (outputFilename w) = None"
    and "outputFilename w = ''hash_results_20250101_120530.csv''"
    and "filepath_Abs w ''hash_results_20250101_120530.csv''
           = Inr ''/home/user/hash_results_20250101_120530.csv''"
  shows "main w [''png''] [''pics''] init_state =
     (0,
      \<lparr>stdout = [''Scanning folder: pics'' @ newline,
                 ''Filtering by extensions: .png'' @ newline,
                 ''Output written to: /home/user/hash_results_20250101_120530.csv'' @ newline],
       stderr = [], opened = [],
       created = [(''hash_results_20250101_120530.csv'',
                   take (disk_room w) (''Name,Path,Size (MB),Hash'' @ newline))]\<rparr>)"
proof -
  have "processFiles w ''pics'' (formatExtensions [''png'']) init_state =
     (([], None),
      \<lparr>stdout = [''Scanning folder: pics'' @ newline, ''Filtering by extensions: .png'' @ newline],
       stderr = [], opened = [], created = []\<rparr>)"
    by (simp only: fmt_png assms(2))
  from rootCmd_folder [OF _ assms(1) this]
  have "rootCmd w [''png''] [''pics''] init_state
      = writeToCsv w []
          \<lparr>stdout = [''Scanning folder: pics'' @ newline,
                     ''Filtering by extensions: .png'' @ newline],
           stderr = [], opened = [], created = []\<rparr>"
    by simp
  then show ?thesis
    using assms(3,4,5)
    by (simp add: main_def Execute_def writeToCsv_empty printToStdOut_def)
qed

text \<open>
  Claim C10 fails on a disk without room. A scan of \<^verbatim>\<open>pics\<close> for \<^verbatim>\<open>png\<close> files finds
  none; the run is not an error, \<^verbatim>\<open>Output written to: \<close> is printed with the path, nothing
  goes to standard error and the exit status is 0; but the report file holds nothing,
  not the header row: the header was in the buffer of the writer, and the error of the
  deferred \<^verbatim>\<open>writer.Flush()\<close> is not looked at. On the disk with room the same run leaves
  the header in the file.
\<close>

theorem empty_scan_unchecked_flush:
  "main full_disk [''png''] [''pics''] init_state =
     (0,
      \<lparr>stdout = [''Scanning folder: pics'' @ newline,
                 ''Filtering by extensions: .png'' @ newline,
                 ''Output written to: /home/user/hash_results_20250101_120530.csv'' @ newline],
       stderr = [], opened = [],
       created = [(''hash_results_20250101_120530.csv'', [])]\<rparr>)
   \<and> main pics_world [''png''] [''pics''] init_state =
     (0,
      \<lparr>stdout = [''Scanning folder: pics'' @ newline,
                 ''Filtering by extensions: .png'' @ newline,
                 ''Output written to: /home/user/hash_results_20250101_120530.csv'' @ newline],
       stderr = [], opened = [],
       created = [(''hash_results_20250101_120530.csv'',
                   ''Name,Path,Size (MB),Hash'' @ newline)]\<rparr>)"
proof -
  have "os_Create full_disk (outputFilename full_disk) = None"
    "outputFilename full_disk = ''hash_results_20250101_120530.csv''"
    "filepath_Abs full_disk ''hash_results_20250101_120530.csv''
           = Inr ''/home/user/hash_results_20250101_120530.csv''"
    "disk_room full_disk = 0"
    by (simp_all add: full_disk_def pics_world_def outputFilename_def)
  from empty_run [OF full_folder full_scan_png this(1,2,3)] this(4)
  have full: "main full_disk [''png''] [''pics''] init_state =
     (0,
      \<lparr>stdout = [''Scanning folder: pics'' @ newline,
                 ''Filtering by extensions: .png'' @ newline,
                 ''Output written to: /home/user/hash_results_20250101_120530.csv'' @ newline],
       stderr = [], opened = [],
       created = [(''hash_results_20250101_120530.csv'', [])]\<rparr>)"
    by simp
  have "os_Create pics_world (outputFilename pics_world) = None"
    "outputFilename pics_world = ''hash_results_20250101_120530.csv''"
    "filepath_Abs pics_world ''hash_results_20250101_120530.csv''
           = Inr ''/home/user/hash_results_20250101_120530.csv''"
    "disk_room pics_world = 1048576"
    by (simp_all add: pics_world_def outputFilename_def)
  from empty_run [OF pics_folder pics_scan_png this(1,2,3)] this(4)
  have "main pics_world [''png''] [''pics''] init_state =
     (0,
      \<lparr>stdout = [''Scanning folder: pics'' @ newline,
                 ''Filtering by extensions: .png'' @ newline,
                 ''Output written to: /home/user/hash_results_20250101_120530.csv'' @ newline],
       stderr = [], opened = [],
       created = [(''hash_results_20250101_120530.csv'',
                   ''Name,Path,Size (MB),Hash'' @ newline)]\<rparr>)"
    by (simp add: newline_def)
  with full show ?thesis
    by (simp only: simp_thms)
qed

end
